theory Spec2Isabelle
  imports Main
begin

section \<open>JavaScript containers\<close>

text \<open>
  A JavaScript \<^verbatim>\<open>Map\<close> iterates in insertion order and \<^verbatim>\<open>set\<close> on a key that is
  already there keeps the key's position, so a \<^verbatim>\<open>Map\<close> whose iteration order the code
  relies on is an association list with that update. A \<^verbatim>\<open>Set\<close> is the list of its
  members in insertion order; \<^verbatim>\<open>add\<close> of a member changes nothing.
\<close>

type_synonym ('k, 'v) jsMap = "('k \<times> 'v) list"

fun Map_set :: "('k, 'v) jsMap \<Rightarrow> 'k \<Rightarrow> 'v \<Rightarrow> ('k, 'v) jsMap" where
  "Map_set [] k v = [(k, v)]"
| "Map_set ((k', v') # m) k v =
     (if k' = k then (k, v) # m else (k', v') # Map_set m k v)"

definition Map_get :: "('k, 'v) jsMap \<Rightarrow> 'k \<Rightarrow> 'v option" where
  "Map_get m k = map_of m k"

definition Map_values :: "('k, 'v) jsMap \<Rightarrow> 'v list" where
  "Map_values m = map snd m"

type_synonym 'a jsSet = "'a list"

definition Set_add :: "'a jsSet \<Rightarrow> 'a \<Rightarrow> 'a jsSet" where
  "Set_add s x = (if x \<in> set s then s else s @ [x])"

definition Set_has :: "'a jsSet \<Rightarrow> 'a \<Rightarrow> bool" where
  "Set_has s x = (x \<in> set s)"

text \<open>\<^verbatim>\<open>new Set(iterable)\<close> adds the elements one after the other.\<close>

definition new_Set :: "'a list \<Rightarrow> 'a jsSet" where
  "new_Set xs = foldl Set_add [] xs"

section \<open>Errors\<close>

text \<open>
  Every \<^verbatim>\<open>throw\<close> and every rejected promise of the source is a value \<open>Inl e\<close>.
  \<open>CollaboratorError\<close> stands for whatever an external library raises
  (google-closure-deps, the file system, \<^verbatim>\<open>JSON.parse\<close>).
\<close>

datatype error =
    MissingEntryPointError string
  | AssertionError string
  | TypeError string
  | JsError string
  | CompilerError string int
  | CycleError
  | ConfigError string
  | GraphError string
  | CollaboratorError string

text \<open>
  Modelled from the spec: \<^verbatim>\<open>assert.ts\<close> is not among the sources. \<^verbatim>\<open>assertNonNullable(x, msg)\<close>
  returns \<open>x\<close> unless it is null or undefined, and throws otherwise; the error it throws is
  passed in, so that the spec's name for the failure at a chunk's entry file
  (\<open>MissingEntryPointError\<close>, section 4.2) can be used where the source asserts exactly that.
  Elsewhere the error is \<open>AssertionError\<close>, with a message of the model's (the sources give none).
\<close>

definition assertNonNullable :: "'a option \<Rightarrow> error \<Rightarrow> error + 'a" where
  "assertNonNullable x e = (case x of None \<Rightarrow> Inl e | Some v \<Rightarrow> Inr v)"

section \<open>The dependency graph collaborator\<close>

datatype DependencyType = CLOSURE_PROVIDE | CLOSURE_MODULE | ES6_MODULE | SCRIPT

text \<open>
  \<^verbatim>\<open>depGraph.Dependency\<close> of google-closure-deps: a file with the symbols it provides and
  the symbols it requires.
\<close>

record Dependency =
  depType :: DependencyType
  path :: string
  closureSymbols :: "string list"
  depImports :: "string list"

text \<open>
  \<^verbatim>\<open>new depGraph.Graph(dependencies)\<close> and \<^verbatim>\<open>graph.order(...entryPoints)\<close> belong to an
  external library: they are parameters of the model, and either may throw. \<open>'g\<close> is the
  type of the graph object.
\<close>

record 'g DepGraph =
  newGraph :: "Dependency list \<Rightarrow> error + 'g"
  order :: "'g \<Rightarrow> Dependency list \<Rightarrow> error + Dependency list"

section \<open>Chunk configuration\<close>

text \<open>\<^verbatim>\<open>entryConfig.modules\<close>: chunk id to \<^verbatim>\<open>{inputs, deps}\<close>, in the order \<^verbatim>\<open>for...in\<close> visits it.\<close>

record ChunkConfig =
  inputs :: "string list"
  deps :: "string list"

type_synonym Modules = "(string \<times> ChunkConfig) list"

section \<open>The splitting engine\<close>

subsection \<open>findTransitiveDeps\<close>

text \<open>\<^verbatim>\<open>new Map(dependencies.map(dep => [dep.path, dep]))\<close>: a later pair replaces an earlier one.\<close>

definition pathToDepOf :: "Dependency list \<Rightarrow> (string \<rightharpoonup> Dependency)" where
  "pathToDepOf dependencies = map_of (rev (map (\<lambda>dep. (path dep, dep)) dependencies))"

text \<open>
  \<^verbatim>\<open>chunkConfig.inputs.map(input => assertNonNullable(pathToDep.get(input), ...))\<close>: the first
  input without a dependency throws.
\<close>

definition missingEntryMessage :: "string \<Rightarrow> string" where
  "missingEntryMessage input = ''entryConfig.paths does not include the inputs: '' @ input"

fun entryPointsOf :: "(string \<rightharpoonup> Dependency) \<Rightarrow> string list \<Rightarrow> error + Dependency list" where
  "entryPointsOf pathToDep [] = Inr []"
| "entryPointsOf pathToDep (input # rest) =
     (case assertNonNullable (pathToDep input)
             (MissingEntryPointError (missingEntryMessage input)) of
        Inl e \<Rightarrow> Inl e
      | Inr dep \<Rightarrow>
          (case entryPointsOf pathToDep rest of
             Inl e \<Rightarrow> Inl e
           | Inr ds \<Rightarrow> Inr (dep # ds)))"

text \<open>The body of \<^verbatim>\<open>sortedChunkIds.forEach\<close>: the ordered closure of one chunk, as paths.\<close>

definition transitiveDepPaths ::
  "'g DepGraph \<Rightarrow> 'g \<Rightarrow> (string \<rightharpoonup> Dependency) \<Rightarrow> Modules \<Rightarrow> string \<Rightarrow> error + string list" where
  "transitiveDepPaths lib graph pathToDep modules chunkId =
     (case map_of modules chunkId of
        None \<Rightarrow> Inl (TypeError ''Cannot read property inputs of undefined'')
      | Some chunkConfig \<Rightarrow>
          (case entryPointsOf pathToDep (inputs chunkConfig) of
             Inl e \<Rightarrow> Inl e
           | Inr entryPoints \<Rightarrow>
               (case order lib graph entryPoints of
                  Inl e \<Rightarrow> Inl e
                | Inr ds \<Rightarrow> Inr (map path ds))))"

fun findTransitiveDeps_loop ::
  "'g DepGraph \<Rightarrow> 'g \<Rightarrow> (string \<rightharpoonup> Dependency) \<Rightarrow> Modules \<Rightarrow> string list \<Rightarrow>
   (string, string jsSet) jsMap \<Rightarrow> error + (string, string jsSet) jsMap" where
  "findTransitiveDeps_loop lib graph pathToDep modules [] acc = Inr acc"
| "findTransitiveDeps_loop lib graph pathToDep modules (chunkId # rest) acc =
     (case transitiveDepPaths lib graph pathToDep modules chunkId of
        Inl e \<Rightarrow> Inl e
      | Inr depPaths \<Rightarrow>
          findTransitiveDeps_loop lib graph pathToDep modules rest
            (Map_set acc chunkId (new_Set depPaths)))"

definition findTransitiveDeps ::
  "'g DepGraph \<Rightarrow> string list \<Rightarrow> Dependency list \<Rightarrow> Modules \<Rightarrow>
   error + (string, string jsSet) jsMap" where
  "findTransitiveDeps lib sortedChunkIds dependencies modules =
     (let pathToDep = pathToDepOf dependencies in
      case newGraph lib dependencies of
        Inl e \<Rightarrow> Inl e
      | Inr graph \<Rightarrow> findTransitiveDeps_loop lib graph pathToDep modules sortedChunkIds [])"

subsection \<open>splitDepsIntoChunks\<close>

text \<open>\<^verbatim>\<open>dag.getLcaNode(...ids)\<close> returns a node; the engine reads its \<^verbatim>\<open>id\<close>.\<close>

record Node =
  nodeId :: string
  nodeDeps :: "string list"

type_synonym getLca = "string list \<Rightarrow> error + Node"

text \<open>The chunks whose transitive set has the path, in the order of the map.\<close>

definition chunkIdsWithDep :: "(string, string jsSet) jsMap \<Rightarrow> string \<Rightarrow> string list" where
  "chunkIdsWithDep chunkToTransitiveDepPathSet targetDepPath =
     map fst (filter (\<lambda>(chunkId, depPathSet). Set_has depPathSet targetDepPath)
                chunkToTransitiveDepPathSet)"

text \<open>One iteration of the inner loop: find the target chunk and add the path to its set.\<close>

definition placePath ::
  "getLca \<Rightarrow> (string, string jsSet) jsMap \<Rightarrow> (string, string jsSet) jsMap \<Rightarrow> string \<Rightarrow>
   error + (string, string jsSet) jsMap" where
  "placePath getLcaNode chunkToTransitiveDepPathSet chunkToInputPathSet targetDepPath =
     (case getLcaNode (chunkIdsWithDep chunkToTransitiveDepPathSet targetDepPath) of
        Inl e \<Rightarrow> Inl e
      | Inr targetChunk \<Rightarrow>
          (case assertNonNullable (Map_get chunkToInputPathSet (nodeId targetChunk))
                  (AssertionError ''Expected non-nullable value'') of
             Inl e \<Rightarrow> Inl e
           | Inr inputPathSet \<Rightarrow>
               Inr (Map_set chunkToInputPathSet (nodeId targetChunk)
                      (Set_add inputPathSet targetDepPath))))"

fun placePaths ::
  "getLca \<Rightarrow> (string, string jsSet) jsMap \<Rightarrow> string list \<Rightarrow> (string, string jsSet) jsMap \<Rightarrow>
   error + (string, string jsSet) jsMap" where
  "placePaths getLcaNode t [] out = Inr out"
| "placePaths getLcaNode t (targetDepPath # rest) out =
     (case placePath getLcaNode t out targetDepPath of
        Inl e \<Rightarrow> Inl e
      | Inr out' \<Rightarrow> placePaths getLcaNode t rest out')"

fun placeAll ::
  "getLca \<Rightarrow> (string, string jsSet) jsMap \<Rightarrow> string jsSet list \<Rightarrow>
   (string, string jsSet) jsMap \<Rightarrow> error + (string, string jsSet) jsMap" where
  "placeAll getLcaNode t [] out = Inr out"
| "placeAll getLcaNode t (targetDepPathSet # rest) out =
     (case placePaths getLcaNode t targetDepPathSet out of
        Inl e \<Rightarrow> Inl e
      | Inr out' \<Rightarrow> placeAll getLcaNode t rest out')"

definition splitDepsIntoChunks ::
  "string list \<Rightarrow> (string, string jsSet) jsMap \<Rightarrow> getLca \<Rightarrow>
   error + (string, string jsSet) jsMap" where
  "splitDepsIntoChunks sortedChunkIds chunkToTransitiveDepPathSet getLcaNode =
     placeAll getLcaNode chunkToTransitiveDepPathSet (Map_values chunkToTransitiveDepPathSet)
       (foldl (\<lambda>m chunk. Map_set m chunk []) [] sortedChunkIds)"

text \<open>
  Lines 245 and 246 of \<^verbatim>\<open>createCompilerOptionsForChunks\<close>: the two steps of the engine, one
  after the other.
\<close>

definition placement ::
  "'g DepGraph \<Rightarrow> getLca \<Rightarrow> string list \<Rightarrow> Dependency list \<Rightarrow> Modules \<Rightarrow>
   error + (string, string jsSet) jsMap" where
  "placement lib getLcaNode sortedChunkIds dependencies modules =
     (case findTransitiveDeps lib sortedChunkIds dependencies modules of
        Inl e \<Rightarrow> Inl e
      | Inr chunkToTransitiveDepPathSet \<Rightarrow>
          splitDepsIntoChunks sortedChunkIds chunkToTransitiveDepPathSet getLcaNode)"

section \<open>The chunk DAG\<close>

text \<open>
  Modelled from the spec: \<^verbatim>\<open>dag.ts\<close> and \<^verbatim>\<open>entryconfig.ts\<close> (\<^verbatim>\<open>Dag\<close>, \<^verbatim>\<open>createDag\<close>) are not
  among the sources. Section 3 of the spec: a chunk is \<^verbatim>\<open>{id, explicitInputs, parentIds}\<close> and
  the DAG is the set of chunks with the parent edges; only the id and the parent ids matter
  to the DAG, and they are the fields of \<open>Node\<close>. The nodes are kept in declaration order.
\<close>

record Dag =
  dagNodes :: "Node list"

text \<open>Modelled from the spec: the declared parents of a chunk id (section 4.1, build).\<close>

definition parentsOf :: "Node list \<Rightarrow> string \<Rightarrow> string list" where
  "parentsOf nodes c = concat (map nodeDeps (filter (\<lambda>n. nodeId n = c) nodes))"

text \<open>
  Modelled from the spec: \<open>ancestorOrSelf nodes a c\<close> says that \<open>a\<close> is \<open>c\<close> or is reached
  from \<open>c\<close> along declared parent edges ("ancestor-or-self", sections 3 and 4.1).
\<close>

inductive ancestorOrSelf :: "Node list \<Rightarrow> string \<Rightarrow> string \<Rightarrow> bool" for nodes where
  self: "ancestorOrSelf nodes c c"
| parent: "n \<in> set nodes \<Longrightarrow> p \<in> set (nodeDeps n) \<Longrightarrow> ancestorOrSelf nodes a p \<Longrightarrow>
           ancestorOrSelf nodes a (nodeId n)"

text \<open>
  Modelled from the spec: "compute the ancestor-closure (inclusive of self) of each input
  id" (section 4.1). The closure is reached after at most as many rounds as there are nodes.
\<close>

fun ancestorsIter :: "nat \<Rightarrow> Node list \<Rightarrow> string list \<Rightarrow> string list" where
  "ancestorsIter 0 nodes S = S"
| "ancestorsIter (Suc k) nodes S =
     ancestorsIter k nodes (List.union S (concat (map (parentsOf nodes) S)))"

definition ancestorClosure :: "Dag \<Rightarrow> string \<Rightarrow> string list" where
  "ancestorClosure dag c = ancestorsIter (length (dagNodes dag)) (dagNodes dag) [c]"

text \<open>
  Modelled from the spec: \<^verbatim>\<open>build(chunkDefs)\<close> "creates an edge parent to child for every
  declared parent id. Fails with CycleError if the declared edges are cyclic" (section 4.1).
  The edges are cyclic when some chunk is among the ancestors of its own parents.
\<close>

definition isCyclic :: "Node list \<Rightarrow> bool" where
  "isCyclic nodes =
     (\<exists>n\<in>set nodes. nodeId n \<in> set (ancestorsIter (length nodes) nodes (nodeDeps n)))"

definition build :: "Node list \<Rightarrow> error + Dag" where
  "build chunkDefs = (if isCyclic chunkDefs then Inl CycleError else Inr \<lparr>dagNodes = chunkDefs\<rparr>)"

text \<open>
  Modelled from the spec: \<^verbatim>\<open>createDag(entryConfig)\<close> builds the DAG of the chunk declarations
  \<^verbatim>\<open>chunkId -> {inputs, deps}\<close>, where \<^verbatim>\<open>deps\<close> lists the parent chunk ids (section 6).
\<close>

definition createDag :: "Modules \<Rightarrow> error + Dag" where
  "createDag modules =
     build (map (\<lambda>(chunkId, c). \<lparr>nodeId = chunkId, nodeDeps = deps c\<rparr>) modules)"

text \<open>
  Modelled from the spec: \<^verbatim>\<open>getSortedIds()\<close> is a "topological order, ancestors before
  descendants. Ties between mutually unordered chunks are broken by declaration order"
  (section 4.1): each round emits the first declared chunk not yet emitted whose parents
  all are.
\<close>

fun topoSort :: "nat \<Rightarrow> Node list \<Rightarrow> string list \<Rightarrow> string list" where
  "topoSort 0 nodes acc = acc"
| "topoSort (Suc k) nodes acc =
     (case find (\<lambda>n. nodeId n \<notin> set acc \<and> (\<forall>p\<in>set (nodeDeps n). p \<in> set acc)) nodes of
        None \<Rightarrow> acc
      | Some n \<Rightarrow> topoSort k nodes (acc @ [nodeId n]))"

definition getSortedIds :: "Dag \<Rightarrow> string list" where
  "getSortedIds dag = topoSort (length (dagNodes dag)) (dagNodes dag) []"

text \<open>Modelled from the spec: the topological depth of a chunk, the length of its longest
  chain of parents.\<close>

fun depthIter :: "nat \<Rightarrow> Node list \<Rightarrow> string \<Rightarrow> nat" where
  "depthIter 0 nodes c = 0"
| "depthIter (Suc k) nodes c =
     (case parentsOf nodes c of
        [] \<Rightarrow> 0
      | p # ps \<Rightarrow> Suc (fold max (map (depthIter k nodes) (p # ps)) 0))"

definition depth :: "Dag \<Rightarrow> string \<Rightarrow> nat" where
  "depth dag c = depthIter (length (dagNodes dag)) (dagNodes dag) c"

text \<open>Modelled from the spec: "intersect the closures" (section 4.1).\<close>

definition commonAncestors :: "Dag \<Rightarrow> string list \<Rightarrow> string list" where
  "commonAncestors dag ids =
     (case ids of
        [] \<Rightarrow> []
      | i # rest \<Rightarrow>
          filter (\<lambda>a. \<forall>j\<in>set rest. a \<in> set (ancestorClosure dag j)) (ancestorClosure dag i))"

text \<open>
  Modelled from the spec: \<^verbatim>\<open>getLcaNode(ids...)\<close>: "Among the intersection, select the element
  at maximal topological depth. If the intersection contains two or more topologically
  incomparable maximal elements, resolve deterministically by picking the one appearing
  latest in getSortedIds() order" (section 4.1). The spec does not say what happens when the
  intersection is empty; the model fails there.
\<close>

definition getLcaNode :: "Dag \<Rightarrow> string list \<Rightarrow> error + Node" where
  "getLcaNode dag ids =
     (let common = commonAncestors dag ids;
          maxDepth = fold max (map (depth dag) common) 0;
          deepest = filter (\<lambda>c. c \<in> set common \<and> depth dag c = maxDepth) (getSortedIds dag)
      in if deepest = [] then Inl (GraphError ''no common ancestor'')
         else (case find (\<lambda>n. nodeId n = last deepest) (dagNodes dag) of
                 None \<Rightarrow> Inl (GraphError ''no common ancestor'')
               | Some n \<Rightarrow> Inr n))"

section \<open>Notions used to state the properties of the engine\<close>

text \<open>The members of a list in the order of their first occurrence.\<close>

fun firstOcc :: "'a list \<Rightarrow> 'a list" where
  "firstOcc [] = []"
| "firstOcc (x # xs) = x # filter (\<lambda>y. y \<noteq> x) (firstOcc xs)"

text \<open>\<open>precedes xs a b\<close>: \<open>a\<close> occurs in \<open>xs\<close> before the first occurrence of \<open>b\<close>.\<close>

definition precedes :: "'a list \<Rightarrow> 'a \<Rightarrow> 'a \<Rightarrow> bool" where
  "precedes xs a b = (a \<in> set (takeWhile (\<lambda>x. x \<noteq> b) xs))"

text \<open>The id of the chunk the engine picks for a path, when the DAG gives one.\<close>

definition targetOf :: "getLca \<Rightarrow> (string, string jsSet) jsMap \<Rightarrow> string \<Rightarrow> string option" where
  "targetOf lca t p =
     (case lca (chunkIdsWithDep t p) of Inl e \<Rightarrow> None | Inr n \<Rightarrow> Some (nodeId n))"

text \<open>The paths in the order the two nested loops visit them.\<close>

definition visitSeq :: "(string, string jsSet) jsMap \<Rightarrow> string list" where
  "visitSeq t = concat (Map_values t)"

text \<open>
  File \<open>f\<close> requires file \<open>d\<close> directly when \<open>f\<close> imports a symbol that \<open>d\<close> provides;
  \<open>directDepPath\<close> is the same relation on the paths of a dependency list.
\<close>

definition requiresDep :: "Dependency \<Rightarrow> Dependency \<Rightarrow> bool" where
  "requiresDep f d = (\<exists>s\<in>set (depImports f). s \<in> set (closureSymbols d))"

definition directDepPath :: "Dependency list \<Rightarrow> string \<Rightarrow> string \<Rightarrow> bool" where
  "directDepPath dependencies f g =
     (\<exists>x\<in>set dependencies. \<exists>d\<in>set dependencies. path x = f \<and> path d = g \<and> requiresDep x d)"

text \<open>
  A path list is topologically ordered (and closed) when every file in it is preceded by
  each file it requires directly. This is what the spec promises of the closure operation
  of the dependency graph collaborator (sections 2 and 6).
\<close>

definition topoOrdered :: "Dependency list \<Rightarrow> string list \<Rightarrow> bool" where
  "topoOrdered dependencies ps =
     (\<forall>x\<in>set dependencies. \<forall>d\<in>set dependencies.
        path x \<in> set ps \<and> requiresDep x d \<longrightarrow> precedes ps (path d) (path x))"

text \<open>The closures the collaborator returns for the chunks of this run are so ordered.\<close>

definition closuresOrdered ::
  "'g DepGraph \<Rightarrow> string list \<Rightarrow> Dependency list \<Rightarrow> Modules \<Rightarrow> bool" where
  "closuresOrdered lib sortedChunkIds dependencies modules =
     (case newGraph lib dependencies of
        Inl e \<Rightarrow> True
      | Inr graph \<Rightarrow>
          (\<forall>chunkId\<in>set sortedChunkIds.
             case transitiveDepPaths lib graph (pathToDepOf dependencies) modules chunkId of
               Inl e \<Rightarrow> True
             | Inr depPaths \<Rightarrow> topoOrdered dependencies depPaths))"

text \<open>
  The collaborator raises nothing in this run: the graph is built, every sorted chunk id is
  configured, and every closure that is asked for is returned.
\<close>

definition closuresReturn ::
  "'g DepGraph \<Rightarrow> string list \<Rightarrow> Dependency list \<Rightarrow> Modules \<Rightarrow> bool" where
  "closuresReturn lib sortedChunkIds dependencies modules =
     (case newGraph lib dependencies of
        Inl e \<Rightarrow> False
      | Inr graph \<Rightarrow>
          (\<forall>chunkId\<in>set sortedChunkIds.
             case map_of modules chunkId of
               None \<Rightarrow> False
             | Some chunkConfig \<Rightarrow>
                 (case entryPointsOf (pathToDepOf dependencies) (inputs chunkConfig) of
                    Inl e \<Rightarrow> True
                  | Inr entryPoints \<Rightarrow>
                      (case order lib graph entryPoints of Inl e \<Rightarrow> False | Inr ds \<Rightarrow> True))))"

section \<open>Compiler options\<close>

datatype CompilationLevel = BUNDLE | WHITESPACE | SIMPLE | ADVANCED

text \<open>\<^verbatim>\<open>PlovrMode\<close>: the levels of the compiler and \<^verbatim>\<open>RAW\<close>.\<close>

datatype PlovrMode = RAW | PlovrWHITESPACE | PlovrSIMPLE | PlovrADVANCED

text \<open>
  \<^verbatim>\<open>interface CompilerOptions\<close>: every key is optional. \<^verbatim>\<open>define\<close> is written \<open>define'\<close>.
\<close>

record CompilerOptions =
  dependency_mode :: "string option"
  entry_point :: "string list option"
  compilation_level :: "CompilationLevel option"
  js :: "string list option"
  js_output_file :: "string option"
  chunk :: "string list option"
  language_in :: "string option"
  language_out :: "string option"
  json_streams :: "string option"
  warning_level :: "string option"
  debug :: "bool option"
  formatting :: "string list option"
  define' :: "string list option"
  externs :: "string list option"
  chunk_wrapper :: "string list option"
  chunk_output_path_prefix :: "string option"
  rename_prefix_namespace :: "string option"
  jscomp_error :: "string list option"
  jscomp_warning :: "string list option"
  jscomp_off :: "string list option"
  flagfile :: "string option"

definition emptyOptions :: CompilerOptions where
  "emptyOptions =
     \<lparr>dependency_mode = None, entry_point = None, compilation_level = None, js = None,
      js_output_file = None, chunk = None, language_in = None, language_out = None,
      json_streams = None, warning_level = None, debug = None, formatting = None,
      define' = None, externs = None, chunk_wrapper = None, chunk_output_path_prefix = None,
      rename_prefix_namespace = None, jscomp_error = None, jscomp_warning = None,
      jscomp_off = None, flagfile = None\<rparr>"

text \<open>A value of \<^verbatim>\<open>entryConfig.define\<close>: a string, or a boolean or number given as \<^verbatim>\<open>String(value)\<close>.\<close>

datatype DefineValue = DefineString string | DefineOther string

text \<open>
  \<^verbatim>\<open>EntryConfig\<close> (declared in \<^verbatim>\<open>entryconfig.ts\<close>, which is not among the sources): the keys the
  sources read. An optional key is an option; the fields are prefixed with \<open>ec_\<close>.
\<close>

record EntryConfig =
  ec_id :: string
  ec_mode :: "PlovrMode option"
  ec_modules :: "Modules option"
  ec_paths :: "string list"
  ec_inputs :: "string list option"
  ec_externs :: "string list option"
  ec_debug :: "bool option"
  ec_language_in :: "string option"
  ec_language_out :: "string option"
  ec_level :: "string option"
  ec_global_scope_name :: "string option"
  ec_module_output_path :: "string option"
  ec_output_file :: "string option"
  ec_pretty_print :: "bool option"
  ec_print_input_delimiter :: "bool option"
  ec_define :: "(string \<times> DefineValue) list option"
  ec_checks :: "(string \<times> string) list option"
  ec_output_wrapper :: "string option"
  ec_test_excludes :: "string list option"

text \<open>JavaScript truthiness of an optional string and of an optional boolean.\<close>

definition truthy :: "string option \<Rightarrow> bool" where
  "truthy s = (case s of None \<Rightarrow> False | Some v \<Rightarrow> v \<noteq> [])"

definition truthyBool :: "bool option \<Rightarrow> bool" where
  "truthyBool b = (case b of None \<Rightarrow> False | Some v \<Rightarrow> v)"

definition GLOBAL_NAMESPACE :: string where
  "GLOBAL_NAMESPACE = ''z''"

definition wrapperMarker :: string where
  "wrapperMarker = ''%output%''"

definition quoted :: "string \<Rightarrow> string" where
  "quoted s = [CHR 0x22] @ s @ [CHR 0x22]"

definition endsWith :: "string \<Rightarrow> string \<Rightarrow> bool" where
  "endsWith s suffix = (length suffix \<le> length s \<and> drop (length s - length suffix) s = suffix)"

definition startsWith :: "string \<Rightarrow> string \<Rightarrow> bool" where
  "startsWith s p = (take (length p) s = p)"

fun mapE :: "('a \<Rightarrow> error + 'b) \<Rightarrow> 'a list \<Rightarrow> error + 'b list" where
  "mapE f [] = Inr []"
| "mapE f (x # xs) =
     (case f x of
        Inl e \<Rightarrow> Inl e
      | Inr y \<Rightarrow> (case mapE f xs of Inl e \<Rightarrow> Inl e | Inr ys \<Rightarrow> Inr (y # ys)))"

subsection \<open>createBaseOptions\<close>

definition levelOfMode :: "PlovrMode option \<Rightarrow> CompilationLevel option" where
  "levelOfMode m =
     (case m of
        None \<Rightarrow> None
      | Some RAW \<Rightarrow> Some WHITESPACE
      | Some PlovrWHITESPACE \<Rightarrow> Some WHITESPACE
      | Some PlovrSIMPLE \<Rightarrow> Some SIMPLE
      | Some PlovrADVANCED \<Rightarrow> Some ADVANCED)"

text \<open>The branch \<^verbatim>\<open>if (entryConfig.modules) ... else ...\<close>.\<close>

definition baseChunksOrPage :: "EntryConfig \<Rightarrow> bool \<Rightarrow> CompilerOptions \<Rightarrow> error + CompilerOptions" where
  "baseChunksOrPage entryConfig outputToFile opts =
     (case ec_modules entryConfig of
        Some modules \<Rightarrow>
          (let opts = opts\<lparr>dependency_mode := Some ''NONE''\<rparr> in
           if outputToFile then
             (if \<not> truthy (ec_module_output_path entryConfig)
              then Inl (JsError (''entryConfig['' @ quoted ''module-output-path'' @ ''] must be specified''))
              else
                (let outputPath = the (ec_module_output_path entryConfig); suffix = ''%s.js'' in
                 if \<not> endsWith outputPath suffix
                 then Inl (TypeError (quoted ''moduleOutputPath'' @ '' must end with '' @ quoted suffix @
                                 '', but actual '' @ quoted outputPath))
                 else Inr (opts\<lparr>chunk_output_path_prefix :=
                             Some (take (length outputPath - length suffix) outputPath)\<rparr>)))
           else Inr opts)
      | None \<Rightarrow>
          (let js = ec_paths entryConfig @
                    (case ec_externs entryConfig of
                       None \<Rightarrow> []
                     | Some es \<Rightarrow> map (\<lambda>extern. ''!'' @ extern) es);
               opts = opts\<lparr>dependency_mode := Some ''PRUNE'', js := Some js\<rparr>
           in case assertNonNullable (ec_inputs entryConfig)
                     (AssertionError ''Expected non-nullable value'') of
                Inl e \<Rightarrow> Inl e
              | Inr ins \<Rightarrow>
                  (let opts = opts\<lparr>entry_point := Some ins\<rparr> in
                   if outputToFile then
                     (if \<not> truthy (ec_output_file entryConfig)
                      then Inl (JsError (''entryConfig['' @ quoted ''output-file'' @ ''] must be specified''))
                      else Inr (opts\<lparr>js_output_file := ec_output_file entryConfig\<rparr>))
                   else Inr opts)))"

definition defineEntry :: "string \<times> DefineValue \<Rightarrow> error + string" where
  "defineEntry kv =
     (case kv of
        (key, DefineString v) \<Rightarrow>
          if CHR 0x27 \<in> set v
          then Inl (JsError (''define value should not include single-quote: '' @
                             quoted (key @ '': '' @ v)))
          else Inr (key @ ''='' @ [CHR 0x27] @ v @ [CHR 0x27])
      | (key, DefineOther v) \<Rightarrow> Inr (key @ ''='' @ v))"

fun sortChecks ::
  "(string \<times> string) list \<Rightarrow> string list \<times> string list \<times> string list \<Rightarrow>
   error + string list \<times> string list \<times> string list" where
  "sortChecks [] acc = Inr acc"
| "sortChecks ((name, v) # rest) (jscompError, jscompWarning, jscompOff) =
     (if v = ''ERROR'' then sortChecks rest (jscompError @ [name], jscompWarning, jscompOff)
      else if v = ''WARNING'' then sortChecks rest (jscompError, jscompWarning @ [name], jscompOff)
      else if v = ''OFF'' then sortChecks rest (jscompError, jscompWarning, jscompOff @ [name])
      else Inl (JsError (''Unexpected value: '' @ quoted (name @ '': '' @ v))))"

definition nonEmptyOpt :: "string list \<Rightarrow> string list option" where
  "nonEmptyOpt xs = (if length xs > 0 then Some xs else None)"

definition createBaseOptions :: "EntryConfig \<Rightarrow> bool \<Rightarrow> error + CompilerOptions" where
  "createBaseOptions entryConfig outputToFile =
     (let opts = emptyOptions
            \<lparr>json_streams := (if \<not> outputToFile then Some ''OUT'' else None),
             language_in := ec_language_in entryConfig,
             language_out := ec_language_out entryConfig,
             warning_level := ec_level entryConfig,
             debug := ec_debug entryConfig,
             rename_prefix_namespace :=
               (if truthy (ec_global_scope_name entryConfig) then Some GLOBAL_NAMESPACE else None),
             compilation_level := levelOfMode (ec_mode entryConfig)\<rparr>
      in case baseChunksOrPage entryConfig outputToFile opts of
           Inl e \<Rightarrow> Inl e
         | Inr opts \<Rightarrow>
             (let opts = opts\<lparr>externs := ec_externs entryConfig\<rparr>;
                  fmt = (if truthyBool (ec_pretty_print entryConfig) then [''PRETTY_PRINT''] else []) @
                        (if truthyBool (ec_print_input_delimiter entryConfig)
                         then [''PRINT_INPUT_DELIMITER''] else []);
                  opts = opts\<lparr>formatting := nonEmptyOpt fmt\<rparr>
              in case (case ec_define entryConfig of
                         None \<Rightarrow> Inr None
                       | Some d \<Rightarrow> (case mapE defineEntry d of Inl e \<Rightarrow> Inl e | Inr ds \<Rightarrow> Inr (Some ds))) of
                   Inl e \<Rightarrow> Inl e
                 | Inr defs \<Rightarrow>
                     (let opts = opts\<lparr>define' := defs\<rparr> in
                      case ec_checks entryConfig of
                        None \<Rightarrow> Inr opts
                      | Some checks \<Rightarrow>
                          (case sortChecks checks ([], [], []) of
                             Inl e \<Rightarrow> Inl e
                           | Inr (jscompError, jscompWarning, jscompOff) \<Rightarrow>
                               Inr (opts\<lparr>jscomp_error := nonEmptyOpt jscompError,
                                         jscomp_warning := nonEmptyOpt jscompWarning,
                                         jscomp_off := nonEmptyOpt jscompOff\<rparr>)))))"

section \<open>Collaborators and server state\<close>

text \<open>
  An argument that the sources pass either as a string or as an array of strings
  (\<^verbatim>\<open>getDependencies\<close> is called with \<^verbatim>\<open>closureLibraryDir\<close> and with \<^verbatim>\<open>[config.closureLibraryDir]\<close>).
\<close>

datatype jsArg = Str string | Arr "string list"

definition argTruthy :: "jsArg option \<Rightarrow> bool" where
  "argTruthy a = (case a of None \<Rightarrow> False | Some (Str s) \<Rightarrow> s \<noteq> [] | Some (Arr xs) \<Rightarrow> True)"

text \<open>\<^verbatim>\<open>parser.ParseResult\<close> of a file and of a deps file.\<close>

record ParseResult =
  pr_dependencies :: "Dependency list"
  pr_hasFatalError :: bool

record DepFileResult =
  dfr_dependencies :: "Dependency list"
  dfr_errors :: "string list"

text \<open>\<^verbatim>\<open>interface CompilerOutput\<close>; its \<^verbatim>\<open>path\<close> is written \<open>outPath\<close>.\<close>

record CompilerOutput =
  outPath :: string
  src :: string
  source_map :: string

text \<open>What the callback of \<^verbatim>\<open>compiler.run\<close> receives.\<close>

record RunResult =
  exitCode :: int
  stdout :: string
  stderr :: "string option"

text \<open>A parsed URL: everything but the query, and the query as \<^verbatim>\<open>URLSearchParams\<close>.\<close>

record URL =
  urlBase :: string
  searchParams :: "(string \<times> string) list"

text \<open>
  \<^verbatim>\<open>URLSearchParams.set\<close>: the first pair with the name takes the value and the other pairs
  with the name are deleted; without such a pair, one is appended.
\<close>

fun params_set :: "(string \<times> string) list \<Rightarrow> string \<Rightarrow> string \<Rightarrow> (string \<times> string) list" where
  "params_set [] k v = [(k, v)]"
| "params_set ((k', v') # ps) k v =
     (if k' = k then (k, v) # filter (\<lambda>(a, b). a \<noteq> k) ps else (k', v') # params_set ps k v)"

text \<open>
  A plain object \<^verbatim>\<open>{}\<close> that the sources use as a dictionary. \<open>ownProps\<close> lists its own
  properties in the order they were created; the value of a property is \<open>None\<close> when
  \<^verbatim>\<open>undefined\<close> was assigned to it. \<open>protoOf\<close> is \<open>None\<close> as long as the prototype is
  \<^verbatim>\<open>Object.prototype\<close>, and \<open>Some v\<close> once the object \<open>v\<close> was made the prototype.
\<close>

record 'a jsObject =
  ownProps :: "(string, 'a option) jsMap"
  protoOf :: "'a option"

definition emptyObject :: "'a jsObject" where
  "emptyObject = \<lparr>ownProps = [], protoOf = None\<rparr>"

text \<open>
  The assignment \<^verbatim>\<open>obj[key] = v\<close> on such an object, for a value that is an object or
  \<^verbatim>\<open>undefined\<close>. The key \<^verbatim>\<open>__proto__\<close> is the accessor of \<^verbatim>\<open>Object.prototype\<close>: its setter makes
  an object value the prototype of \<^verbatim>\<open>obj\<close>, ignores \<^verbatim>\<open>undefined\<close>, and creates no own
  property. Every other key becomes (or stays) an own property: the members of
  \<^verbatim>\<open>Object.prototype\<close> and of a prototype set before are writable data properties, which an
  assignment shadows.
\<close>

definition assignProp :: "'a jsObject \<Rightarrow> string \<Rightarrow> 'a option \<Rightarrow> 'a jsObject" where
  "assignProp obj key v =
     (if key = ''__proto__''
      then (case v of None \<Rightarrow> obj | Some p \<Rightarrow> obj\<lparr>protoOf := Some p\<rparr>)
      else obj\<lparr>ownProps := Map_set (ownProps obj) key v\<rparr>)"

text \<open>
  What \<^verbatim>\<open>JSON.stringify\<close> serialises of the object: the own properties whose value is not
  \<^verbatim>\<open>undefined\<close>. Nothing of the prototype is serialised.
\<close>

definition ownEntries :: "'a jsObject \<Rightarrow> (string \<times> 'a) list" where
  "ownEntries obj =
     concat (map (\<lambda>(key, v). case v of None \<Rightarrow> [] | Some x \<Rightarrow> [(key, x)]) (ownProps obj))"

text \<open>A chunk session \<^verbatim>\<open>{[id: string]: CompilerOutput}\<close>.\<close>

type_synonym Session = "CompilerOutput jsObject"

text \<open>
  The module-level state of \<^verbatim>\<open>serve.ts\<close> and \<^verbatim>\<open>gendeps.ts\<close>, and what the model records of the
  outside: \<open>compilerRuns\<close> lists the options (and \<^verbatim>\<open>useNative\<close>) of every
  \<^verbatim>\<open>new ClosureCompiler(opts).run\<close>, \<open>flagfiles\<close> the flag files written, each represented by
  the options it serialises.
\<close>

record ServerState =
  entryIdToChunkCache :: "string \<rightharpoonup> (string \<rightharpoonup> Session)"
  dependenciesCache :: "string \<rightharpoonup> Dependency list"
  depFileTextCache :: "string \<rightharpoonup> string"
  compilerRuns :: "(bool \<times> CompilerOptions) list"
  flagfiles :: "(string \<times> CompilerOptions) list"

text \<open>
  Everything the sources call outside this repository (Node's \<^verbatim>\<open>path\<close>, \<^verbatim>\<open>fs\<close> and \<^verbatim>\<open>URL\<close>,
  \<^verbatim>\<open>JSON\<close>, \<^verbatim>\<open>String.prototype.replace\<close>, recursive-readdir, google-closure-deps, common-tags,
  tempy, the compiler itself) and the two constants of \<^verbatim>\<open>urls.ts\<close> are parameters of the model.
  \<open>jsonStringify\<close> is \<^verbatim>\<open>JSON.stringify\<close> on a dictionary object, given as the entries it
  serialises in the order of their creation. \<open>run\<close> is \<^verbatim>\<open>new ClosureCompiler(opts).run\<close> of
  google-closure-compiler: what its callback receives for the options, with the flag files
  written so far.
\<close>

record 'g Env =
  depGraphLib :: "'g DepGraph"
  pathJoin :: "jsArg list \<Rightarrow> error + string"
  pathDirname :: "string \<Rightarrow> string"
  pathResolve :: "string \<Rightarrow> string \<Rightarrow> string"
  pathRelative :: "string \<Rightarrow> string \<Rightarrow> string"
  inputsUrlPath :: string
  googBaseUrlPath :: string
  recursive :: "string \<Rightarrow> string list \<Rightarrow> error + string list"
  parseFileAsync :: "string \<Rightarrow> error + ParseResult"
  readFile :: "string \<Rightarrow> error + string"
  parseDependencyFile :: "string \<Rightarrow> string \<Rightarrow> DepFileResult"
  setClosurePath :: "string \<Rightarrow> Dependency \<Rightarrow> Dependency"
  getDepFileText :: "string \<Rightarrow> Dependency list \<Rightarrow> error + string"
  stripIndents :: "string \<Rightarrow> string"
  jsonStringify :: "(string \<times> string list) list \<Rightarrow> string"
  replaceNewlines :: "string \<Rightarrow> string \<Rightarrow> string"
  replaceFirst :: "string \<Rightarrow> string \<Rightarrow> string \<Rightarrow> string"
  newURL :: "string \<Rightarrow> string \<Rightarrow> error + URL"
  urlToString :: "URL \<Rightarrow> string"
  tempyFile :: "nat \<Rightarrow> string"
  run :: "bool \<Rightarrow> CompilerOptions \<Rightarrow> (string \<times> CompilerOptions) list \<Rightarrow> RunResult"
  jsonParse :: "string \<Rightarrow> error + CompilerOutput list"

record DuckConfig =
  closureLibraryDir :: string
  inputsRoot :: string

fun joinWith :: "string \<Rightarrow> string list \<Rightarrow> string" where
  "joinWith sep [] = []"
| "joinWith sep [x] = x"
| "joinWith sep (x # y # ys) = x @ sep @ joinWith sep (y # ys)"

text \<open>A number of files as \<^verbatim>\<open>`${n}`\<close> prints it.\<close>

function showNat :: "nat \<Rightarrow> string" where
  "showNat n =
     (if n < 10 then [''0123456789'' ! n]
      else showNat (n div 10) @ [''0123456789'' ! (n mod 10)])"
  by pat_completeness auto
termination
  by (relation "measure (\<lambda>n. n)") auto

declare showNat.simps [simp del]

section \<open>gendeps: the dependency caches\<close>

text \<open>The two filters of \<^verbatim>\<open>getDependencies\<close>: \<^verbatim>\<open>/\.js$/\<close>, and the test files of excluded roots.\<close>

definition keepFile :: "string list option \<Rightarrow> string \<Rightarrow> bool" where
  "keepFile testExcludes file =
     (case testExcludes of
        None \<Rightarrow> True
      | Some excludes \<Rightarrow>
          if (\<exists>exclude\<in>set excludes. startsWith file exclude)
          then \<not> endsWith file ''_test.js''
          else True)"

text \<open>The async function mapped over \<^verbatim>\<open>entryConfig.paths\<close>.\<close>

definition parsePath :: "'g Env \<Rightarrow> EntryConfig \<Rightarrow> jsArg option \<Rightarrow> string \<Rightarrow> error + ParseResult list" where
  "parsePath env entryConfig ignoreDir p =
     (case (if argTruthy ignoreDir
            then (case pathJoin env [the ignoreDir, Str ''*''] of
                    Inl e \<Rightarrow> Inl e
                  | Inr d \<Rightarrow> Inr [d])
            else Inr []) of
        Inl e \<Rightarrow> Inl e
      | Inr ignoreDirs \<Rightarrow>
          (case recursive env p ignoreDirs of
             Inl e \<Rightarrow> Inl e
           | Inr files \<Rightarrow>
               mapE (parseFileAsync env)
                 (filter (keepFile (ec_test_excludes entryConfig))
                    (filter (\<lambda>file. endsWith file ''.js'') files))))"

definition getDependencies ::
  "'g Env \<Rightarrow> EntryConfig \<Rightarrow> jsArg option \<Rightarrow> ServerState \<Rightarrow>
   (error + Dependency list) \<times> ServerState" where
  "getDependencies env entryConfig ignoreDir s =
     (case dependenciesCache s (ec_id entryConfig) of
        Some cached \<Rightarrow> (Inr cached, s)
      | None \<Rightarrow>
          (case mapE (parsePath env entryConfig ignoreDir) (ec_paths entryConfig) of
             Inl e \<Rightarrow> (Inl e, s)
           | Inr parsed \<Rightarrow>
               (let results = concat parsed in
                if (\<exists>result\<in>set results. pr_hasFatalError result)
                then (Inl (JsError ''Fatal parse error''), s)
                else
                  (let deps = concat (map pr_dependencies results) in
                   (Inr deps,
                    s\<lparr>dependenciesCache := (dependenciesCache s)(ec_id entryConfig \<mapsto> deps)\<rparr>)))))"

text \<open>
  \<^verbatim>\<open>generateDepFileText\<close> turns the \<^verbatim>\<open>SCRIPT\<close> dependencies into \<^verbatim>\<open>CLOSURE_PROVIDE\<close> on the
  objects of the cached array and restores them after \<^verbatim>\<open>getDepFileText\<close>; when that call
  throws, they are not restored.
\<close>

definition generateDepFileText ::
  "'g Env \<Rightarrow> EntryConfig \<Rightarrow> string \<Rightarrow> string \<Rightarrow> ServerState \<Rightarrow> (error + string) \<times> ServerState" where
  "generateDepFileText env entryConfig closureLibDir inputsRootDir s =
     (case depFileTextCache s (ec_id entryConfig) of
        Some cached \<Rightarrow> (Inr cached, s)
      | None \<Rightarrow>
          (case getDependencies env entryConfig (Some (Str closureLibDir)) s of
             (Inl e, s1) \<Rightarrow> (Inl e, s1)
           | (Inr dependencies, s1) \<Rightarrow>
               (let googBaseDirVirtualPath =
                      pathDirname env
                        (pathResolve env inputsRootDir
                           (pathRelative env (inputsUrlPath env) (googBaseUrlPath env)));
                    asProvide =
                      map (\<lambda>dep. if depType dep = SCRIPT then dep\<lparr>depType := CLOSURE_PROVIDE\<rparr> else dep)
                        dependencies
                in case getDepFileText env googBaseDirVirtualPath asProvide of
                     Inl e \<Rightarrow>
                       (Inl e,
                        s1\<lparr>dependenciesCache :=
                              (dependenciesCache s1)(ec_id entryConfig \<mapsto> asProvide)\<rparr>)
                   | Inr depFileText \<Rightarrow>
                       (Inr depFileText,
                        s1\<lparr>depFileTextCache :=
                              (depFileTextCache s1)(ec_id entryConfig \<mapsto> depFileText)\<rparr>))))"

definition getClosureLibraryDependencies :: "'g Env \<Rightarrow> string \<Rightarrow> error + Dependency list" where
  "getClosureLibraryDependencies env closureLibDir =
     (case pathJoin env [Str closureLibDir, Str ''closure'', Str ''goog'', Str ''deps.js''] of
        Inl e \<Rightarrow> Inl e
      | Inr googBasePath \<Rightarrow>
          (case readFile env googBasePath of
             Inl e \<Rightarrow> Inl e
           | Inr depsContent \<Rightarrow>
               (let result = parseDependencyFile env depsContent googBasePath in
                if length (dfr_errors result) > 0
                then Inl (JsError (''Fail to parse deps.js of Closure Library: '' @
                                    joinWith '', '' (dfr_errors result)))
                else Inr (map (setClosurePath env (pathDirname env googBasePath))
                            (dfr_dependencies result)))))"

section \<open>Running the compiler\<close>

text \<open>
  \<^verbatim>\<open>convertToFlagfile\<close> writes the options to a fresh file and returns \<^verbatim>\<open>{flagfile}\<close> alone.
\<close>

definition convertToFlagfile ::
  "'g Env \<Rightarrow> CompilerOptions \<Rightarrow> ServerState \<Rightarrow> CompilerOptions \<times> ServerState" where
  "convertToFlagfile env opts s =
     (let file = tempyFile env (length (flagfiles s)) in
      (emptyOptions\<lparr>flagfile := Some file\<rparr>, s\<lparr>flagfiles := flagfiles s @ [(file, opts)]\<rparr>))"

text \<open>
  \<^verbatim>\<open>compile\<close>: one \<^verbatim>\<open>compiler.run\<close>, whose callback rejects with \<^verbatim>\<open>CompilerError(stderr, exitCode)\<close>
  when \<^verbatim>\<open>stderr\<close> is truthy and resolves with \<^verbatim>\<open>stdout\<close> otherwise.
\<close>

definition compile ::
  "'g Env \<Rightarrow> CompilerOptions \<Rightarrow> bool \<Rightarrow> ServerState \<Rightarrow> (error + string) \<times> ServerState" where
  "compile env opts useNative s =
     (let (opts, s) =
            (if (case js opts of None \<Rightarrow> False | Some files \<Rightarrow> length files > 100)
             then convertToFlagfile env opts s
             else (opts, s));
          result = run env useNative opts (flagfiles s);
          s = s\<lparr>compilerRuns := compilerRuns s @ [(useNative, opts)]\<rparr>
      in if truthy (stderr result)
         then (Inl (CompilerError (the (stderr result)) (exitCode result)), s)
         else (Inr (stdout result), s))"

definition compileToJson ::
  "'g Env \<Rightarrow> CompilerOptions \<Rightarrow> ServerState \<Rightarrow> (error + CompilerOutput list) \<times> ServerState" where
  "compileToJson env opts s =
     (case compile env (opts\<lparr>json_streams := Some ''OUT''\<rparr>) False s of
        (Inl e, s') \<Rightarrow> (Inl e, s')
      | (Inr out, s') \<Rightarrow> (jsonParse env out, s'))"

section \<open>Chunk wrappers and the module manifest\<close>

definition newline :: string where
  "newline = [CHR 0x0A]"

text \<open>The template of \<^verbatim>\<open>createBaseOutputWrapper\<close>, before \<^verbatim>\<open>stripIndents\<close>.\<close>

definition globalScopeTemplate :: "string \<Rightarrow> bool \<Rightarrow> string" where
  "globalScopeTemplate globalScope isRoot =
     newline @ ''        '' @ (if isRoot then ''var '' @ globalScope @ ''={};'' else '''') @
     newline @ ''        (function('' @ GLOBAL_NAMESPACE @ ''){'' @
     newline @ ''        '' @ wrapperMarker @
     newline @ ''        }).call(this,'' @ globalScope @ '');''"

definition createBaseOutputWrapper ::
  "'g Env \<Rightarrow> EntryConfig \<Rightarrow> CompilationLevel \<Rightarrow> bool \<Rightarrow> string" where
  "createBaseOutputWrapper env entryConfig level isRoot =
     (let wrapper = (if truthy (ec_output_wrapper entryConfig)
                     then the (ec_output_wrapper entryConfig) else wrapperMarker)
      in if truthy (ec_global_scope_name entryConfig) \<and> level \<noteq> WHITESPACE
         then replaceFirst env wrapper wrapperMarker
                (stripIndents env
                   (globalScopeTemplate (the (ec_global_scope_name entryConfig)) isRoot))
         else wrapper)"

text \<open>
  \<^verbatim>\<open>convertModuleInfos\<close>: the manifest. The loop \<^verbatim>\<open>for (const id in modules)\<close> assigns to two
  objects that start empty: \<^verbatim>\<open>moduleInfo[id]\<close> takes the parents of the chunk and
  \<^verbatim>\<open>moduleUris[id]\<close> the URIs that \<^verbatim>\<open>createModuleUris\<close> gives for it. Both values are arrays,
  so for a chunk named \<^verbatim>\<open>__proto__\<close> the assignments replace the prototypes of the two objects
  and add no entry.
\<close>

fun convertModuleInfos_loop ::
  "Modules \<Rightarrow> (string \<Rightarrow> error + string list) \<Rightarrow> string list jsObject \<Rightarrow>
   string list jsObject \<Rightarrow> error + string list jsObject \<times> string list jsObject" where
  "convertModuleInfos_loop [] createModuleUris moduleInfo moduleUris = Inr (moduleInfo, moduleUris)"
| "convertModuleInfos_loop ((chunkId, m) # rest) createModuleUris moduleInfo moduleUris =
     (case createModuleUris chunkId of
        Inl e \<Rightarrow> Inl e
      | Inr uris \<Rightarrow>
          convertModuleInfos_loop rest createModuleUris
            (assignProp moduleInfo chunkId (Some (deps m)))
            (assignProp moduleUris chunkId (Some uris)))"

definition convertModuleInfos ::
  "EntryConfig \<Rightarrow> (string \<Rightarrow> error + string list) \<Rightarrow>
   error + string list jsObject \<times> string list jsObject" where
  "convertModuleInfos entryConfig createModuleUris =
     (case assertNonNullable (ec_modules entryConfig) (AssertionError ''Expected non-nullable value'') of
        Inl e \<Rightarrow> Inl e
      | Inr modules \<Rightarrow> convertModuleInfos_loop modules createModuleUris emptyObject emptyObject)"

text \<open>The template of the root chunk in \<^verbatim>\<open>createChunkWrapper\<close>, before \<^verbatim>\<open>stripIndents\<close>.\<close>

definition rootChunkTemplate :: "string \<Rightarrow> string \<Rightarrow> bool \<Rightarrow> string \<Rightarrow> string" where
  "rootChunkTemplate moduleInfoJson moduleUrisJson debugMode wrapper =
     newline @ ''      var PLOVR_MODULE_INFO='' @ moduleInfoJson @ '';'' @
     newline @ ''      var PLOVR_MODULE_URIS='' @ moduleUrisJson @ '';'' @
     newline @ ''      '' @ (if debugMode then ''var PLOVR_MODULE_USE_DEBUG_MODE=true;'' else '''') @
     newline @ ''      '' @ wrapper"

definition chunkWrapperOf ::
  "'g Env \<Rightarrow> EntryConfig \<Rightarrow> CompilationLevel \<Rightarrow> string list jsObject \<Rightarrow>
   string list jsObject \<Rightarrow> string \<times> nat \<Rightarrow> string" where
  "chunkWrapperOf env entryConfig compilationLevel moduleInfo moduleUris ci =
     (case ci of (chunkId, index) \<Rightarrow>
        (let isRootChunk = (index = 0);
             wrapper = createBaseOutputWrapper env entryConfig compilationLevel isRootChunk;
             wrapper = (if isRootChunk
                        then stripIndents env
                               (rootChunkTemplate (jsonStringify env (ownEntries moduleInfo))
                                  (jsonStringify env (ownEntries moduleUris))
                                  (truthyBool (ec_debug entryConfig)) wrapper)
                        else wrapper)
         in chunkId @ '':'' @ replaceNewlines env wrapper ''%n%''))"

definition createChunkWrapper ::
  "'g Env \<Rightarrow> EntryConfig \<Rightarrow> string list \<Rightarrow> CompilationLevel \<Rightarrow>
   (string \<Rightarrow> error + string list) \<Rightarrow> error + string list" where
  "createChunkWrapper env entryConfig sortedChunkIds compilationLevel createModuleUris =
     (case convertModuleInfos entryConfig createModuleUris of
        Inl e \<Rightarrow> Inl e
      | Inr (moduleInfo, moduleUris) \<Rightarrow>
          Inr (map (chunkWrapperOf env entryConfig compilationLevel moduleInfo moduleUris)
                 (zip sortedChunkIds [0..<length sortedChunkIds])))"

section \<open>createCompilerOptionsForChunks\<close>

text \<open>An element of \<^verbatim>\<open>options.chunk\<close>: \<^verbatim>\<open>`${id}:${numOfInputs}:${modules[id].deps.join(',')}`\<close>.\<close>

definition chunkFlag :: "Modules \<Rightarrow> (string, string jsSet) jsMap \<Rightarrow> string \<Rightarrow> error + string" where
  "chunkFlag modules chunkToInputPathSet chunkId =
     (case Map_get chunkToInputPathSet chunkId of
        None \<Rightarrow> Inl (TypeError ''Cannot read property size of undefined'')
      | Some inputPathSet \<Rightarrow>
          (case map_of modules chunkId of
             None \<Rightarrow> Inl (TypeError ''Cannot read property deps of undefined'')
           | Some m \<Rightarrow>
               Inr (chunkId @ '':'' @ showNat (length inputPathSet) @ '':'' @ joinWith '','' (deps m))))"

text \<open>
  The two dependency lists are awaited together; the model runs \<^verbatim>\<open>getDependencies\<close> first and
  keeps its effect on the cache when the Closure Library list fails.
\<close>

definition allDependencies ::
  "'g Env \<Rightarrow> DuckConfig \<Rightarrow> EntryConfig \<Rightarrow> ServerState \<Rightarrow> (error + Dependency list) \<times> ServerState" where
  "allDependencies env config entryConfig s =
     (case getDependencies env entryConfig (Some (Arr [closureLibraryDir config])) s of
        (Inl e, s1) \<Rightarrow> (Inl e, s1)
      | (Inr ds, s1) \<Rightarrow>
          (case getClosureLibraryDependencies env (closureLibraryDir config) of
             Inl e \<Rightarrow> (Inl e, s1)
           | Inr libDs \<Rightarrow> (Inr (ds @ libDs), s1)))"

text \<open>The synchronous rest of the function, from \<^verbatim>\<open>createDag\<close> on.\<close>

definition chunkOptions ::
  "'g Env \<Rightarrow> EntryConfig \<Rightarrow> Modules \<Rightarrow> Dependency list \<Rightarrow> bool \<Rightarrow>
   (string \<Rightarrow> error + string list) \<Rightarrow> error + CompilerOptions \<times> string list \<times> string option" where
  "chunkOptions env entryConfig modules dependencies outputToFile createModuleUris =
     (case createDag modules of
        Inl e \<Rightarrow> Inl e
      | Inr dag \<Rightarrow>
          (let sortedChunkIds = getSortedIds dag in
           case placement (depGraphLib env) (getLcaNode dag) sortedChunkIds dependencies modules of
             Inl e \<Rightarrow> Inl e
           | Inr chunkToInputPathSet \<Rightarrow>
               (case createBaseOptions entryConfig outputToFile of
                  Inl e \<Rightarrow> Inl e
                | Inr options \<Rightarrow>
                    (case mapE (chunkFlag modules chunkToInputPathSet) sortedChunkIds of
                       Inl e \<Rightarrow> Inl e
                     | Inr chunks \<Rightarrow>
                         (let options = options\<lparr>js := Some (concat (Map_values chunkToInputPathSet)),
                                                chunk := Some chunks\<rparr>
                          in case assertNonNullable (compilation_level options)
                                    (AssertionError ''Expected non-nullable value'') of
                               Inl e \<Rightarrow> Inl e
                             | Inr level \<Rightarrow>
                                 (case createChunkWrapper env entryConfig sortedChunkIds level
                                         createModuleUris of
                                    Inl e \<Rightarrow> Inl e
                                  | Inr wrappers \<Rightarrow>
                                      Inr (options\<lparr>chunk_wrapper := Some wrappers\<rparr>,
                                           sortedChunkIds,
                                           (case sortedChunkIds of [] \<Rightarrow> None | c # cs \<Rightarrow> Some c))))))))"

definition createCompilerOptionsForChunks ::
  "'g Env \<Rightarrow> EntryConfig \<Rightarrow> DuckConfig \<Rightarrow> bool \<Rightarrow> (string \<Rightarrow> error + string list) \<Rightarrow>
   ServerState \<Rightarrow> (error + CompilerOptions \<times> string list \<times> string option) \<times> ServerState" where
  "createCompilerOptionsForChunks env entryConfig config outputToFile createModuleUris s =
     (case assertNonNullable (ec_modules entryConfig) (AssertionError ''Expected non-nullable value'') of
        Inl e \<Rightarrow> (Inl e, s)
      | Inr modules \<Rightarrow>
          (case allDependencies env config entryConfig s of
             (Inl e, s1) \<Rightarrow> (Inl e, s1)
           | (Inr dependencies, s1) \<Rightarrow>
               (chunkOptions env entryConfig modules dependencies outputToFile createModuleUris, s1)))"

section \<open>The compile route of the server\<close>

record CompileQuery =
  q_id :: string
  q_mode :: "PlovrMode option"
  q_chunk :: "string option"
  q_parentRequest :: "string option"

text \<open>
  Reading \<^verbatim>\<open>session[key]\<close> on a chunk session. An own property gives its value. Otherwise the
  prototype chain is searched: when a compiler output was made the prototype, \<^verbatim>\<open>__proto__\<close>
  gives that output and \<^verbatim>\<open>path\<close>, \<^verbatim>\<open>src\<close> and \<^verbatim>\<open>source_map\<close> give its strings; then come the
  members of \<^verbatim>\<open>Object.prototype\<close>, which are functions, and \<^verbatim>\<open>__proto__\<close>, which is
  \<^verbatim>\<open>Object.prototype\<close> itself (both \<open>Builtin\<close>); every other key gives \<^verbatim>\<open>undefined\<close>.
\<close>

definition objectPrototypeKeys :: "string list" where
  "objectPrototypeKeys =
     [''constructor'', ''__defineGetter__'', ''__defineSetter__'', ''hasOwnProperty'',
      ''__lookupGetter__'', ''__lookupSetter__'', ''isPrototypeOf'', ''propertyIsEnumerable'',
      ''toString'', ''valueOf'', ''__proto__'', ''toLocaleString'']"

datatype jsValue = Undefined | Output CompilerOutput | StringValue string | Builtin

definition getProp :: "Session \<Rightarrow> string \<Rightarrow> jsValue" where
  "getProp obj key =
     (case Map_get (ownProps obj) key of
        Some None \<Rightarrow> Undefined
      | Some (Some out) \<Rightarrow> Output out
      | None \<Rightarrow>
          (case protoOf obj of
             Some p \<Rightarrow>
               if key = ''__proto__'' then Output p
               else if key = ''path'' then StringValue (outPath p)
               else if key = ''src'' then StringValue (src p)
               else if key = ''source_map'' then StringValue (source_map p)
               else if key \<in> set objectPrototypeKeys then Builtin
               else Undefined
           | None \<Rightarrow> if key \<in> set objectPrototypeKeys then Builtin else Undefined))"

text \<open>The truth value of what was read: only \<^verbatim>\<open>undefined\<close> and the empty string are falsy.\<close>

definition valueTruthy :: "jsValue \<Rightarrow> bool" where
  "valueTruthy v =
     (case v of
        Undefined \<Rightarrow> False
      | Output out \<Rightarrow> True
      | StringValue str \<Rightarrow> str \<noteq> []
      | Builtin \<Rightarrow> True)"

text \<open>
  \<^verbatim>\<open>value.src\<close>: the source of a compiler output; \<^verbatim>\<open>undefined\<close> (\<open>None\<close>) on a string, a
  function and \<^verbatim>\<open>Object.prototype\<close>, which have no such property; a \<^verbatim>\<open>TypeError\<close> on
  \<^verbatim>\<open>undefined\<close>.
\<close>

definition srcOf :: "jsValue \<Rightarrow> error + string option" where
  "srcOf v =
     (case v of
        Undefined \<Rightarrow> Inl (TypeError ''Cannot read property src of undefined'')
      | Output out \<Rightarrow> Inr (Some (src out))
      | StringValue str \<Rightarrow> Inr None
      | Builtin \<Rightarrow> Inr None)"

text \<open>
  What the handler does with the response: \<open>Returned\<close> is the value the async handler
  resolves with, \<open>Sent\<close> the payload of \<^verbatim>\<open>reply.code(200).type(...).send(...)\<close>; the payload is
  \<open>None\<close> when it is \<^verbatim>\<open>undefined\<close>.
\<close>

datatype reply = Returned "string option" | Sent "string option"

text \<open>The closure \<^verbatim>\<open>createModuleUris\<close> of \<^verbatim>\<open>replyChunksCompile\<close>.\<close>

definition createModuleUris ::
  "'g Env \<Rightarrow> string \<Rightarrow> string \<Rightarrow> string \<Rightarrow> string \<Rightarrow> error + string list" where
  "createModuleUris env baseUrl url requestId chunkId =
     (case newURL env url baseUrl of
        Inl e \<Rightarrow> Inl e
      | Inr uri \<Rightarrow>
          (let params = params_set (params_set (searchParams uri) ''chunk'' chunkId)
                          ''parentRequest'' requestId
           in Inr [urlToString env (uri\<lparr>searchParams := params\<rparr>)]))"

definition nthOpt :: "'a list \<Rightarrow> nat \<Rightarrow> 'a option" where
  "nthOpt xs i = (if i < length xs then Some (xs ! i) else None)"

text \<open>\<^verbatim>\<open>sortedChunkIds.forEach((id, index) => { chunkIdToOutput[id] = chunkOutputs[index]; })\<close>\<close>

definition chunkIdToOutputOf :: "string list \<Rightarrow> CompilerOutput list \<Rightarrow> Session" where
  "chunkIdToOutputOf sortedChunkIds chunkOutputs =
     foldl (\<lambda>obj (chunkId, index). assignProp obj chunkId (nthOpt chunkOutputs index)) emptyObject
       (zip sortedChunkIds [0..<length sortedChunkIds])"

text \<open>The key of \<^verbatim>\<open>chunkIdToOutput[requestedChunkId || rootChunkId]\<close>.\<close>

definition replyKey :: "CompileQuery \<Rightarrow> string option \<Rightarrow> string" where
  "replyKey query rootChunkId =
     (if truthy (q_chunk query) then the (q_chunk query)
      else (case rootChunkId of None \<Rightarrow> ''undefined'' | Some r \<Rightarrow> r))"

text \<open>The part of \<^verbatim>\<open>replyChunksCompile\<close> after the cache lookup: compile, store, reply.\<close>

definition compileAndCache ::
  "'g Env \<Rightarrow> DuckConfig \<Rightarrow> string \<Rightarrow> EntryConfig \<Rightarrow> string \<Rightarrow> string \<Rightarrow> CompileQuery \<Rightarrow>
   ServerState \<Rightarrow> (error + reply) \<times> ServerState" where
  "compileAndCache env config baseUrl entryConfig url requestId query s =
     (case createCompilerOptionsForChunks env entryConfig config False
             (createModuleUris env baseUrl url requestId) s of
        (Inl e, s1) \<Rightarrow> (Inl e, s1)
      | (Inr (options, sortedChunkIds, rootChunkId), s1) \<Rightarrow>
          (case convertToFlagfile env options s1 of
             (flagOpts, s2) \<Rightarrow>
               (case compileToJson env flagOpts s2 of
                  (Inl e, s3) \<Rightarrow> (Inl e, s3)
                | (Inr chunkOutputs, s3) \<Rightarrow>
                    (let chunkIdToOutput = chunkIdToOutputOf sortedChunkIds chunkOutputs;
                         chunkCache = (case entryIdToChunkCache s3 (ec_id entryConfig) of
                                         None \<Rightarrow> Map.empty | Some m \<Rightarrow> m);
                         s4 = s3\<lparr>entryIdToChunkCache :=
                                   (entryIdToChunkCache s3)
                                     (ec_id entryConfig \<mapsto> chunkCache(requestId \<mapsto> chunkIdToOutput))\<rparr>;
                         key = replyKey query rootChunkId
                     in case srcOf (getProp chunkIdToOutput key) of
                          Inl e \<Rightarrow> (Inl e, s4)
                        | Inr payload \<Rightarrow> (Inr (Sent payload), s4)))))"

text \<open>The first statement of \<^verbatim>\<open>replyChunksCompile\<close>: the entry gets an empty map when it has none.\<close>

definition ensureEntry :: "ServerState \<Rightarrow> string \<Rightarrow> ServerState" where
  "ensureEntry s entryId =
     (if entryIdToChunkCache s entryId = None
      then s\<lparr>entryIdToChunkCache := (entryIdToChunkCache s)(entryId \<mapsto> Map.empty)\<rparr>
      else s)"

definition replyChunksCompile ::
  "'g Env \<Rightarrow> DuckConfig \<Rightarrow> string \<Rightarrow> EntryConfig \<Rightarrow> string \<Rightarrow> string \<Rightarrow> CompileQuery \<Rightarrow>
   ServerState \<Rightarrow> (error + reply) \<times> ServerState" where
  "replyChunksCompile env config baseUrl entryConfig url requestId query s =
     (let parentRequest = q_parentRequest query;
          requestedChunkId = q_chunk query;
          s0 = ensureEntry s (ec_id entryConfig);
          chunkCache = the (entryIdToChunkCache s0 (ec_id entryConfig))
      in if truthy requestedChunkId \<and> truthy parentRequest \<and>
            chunkCache (the parentRequest) \<noteq> None
         then (let parentChunkCache = the (chunkCache (the parentRequest)) in
               if \<not> valueTruthy (getProp parentChunkCache (the requestedChunkId))
               then (Inl (JsError (''Unexpected requested chunk: '' @ the requestedChunkId)), s0)
               else (case srcOf (getProp parentChunkCache (the requestedChunkId)) of
                       Inl e \<Rightarrow> (Inl e, s0)
                     | Inr payload \<Rightarrow> (Inr (Returned payload), s0)))
         else compileAndCache env config baseUrl entryConfig url requestId query s0)"

definition clearEntryIdToChunkCache :: "ServerState \<Rightarrow> ServerState" where
  "clearEntryIdToChunkCache s = s\<lparr>entryIdToChunkCache := Map.empty\<rparr>"

section \<open>A concrete configuration\<close>

text \<open>
  Scenario A of the spec: the root chunk \<^verbatim>\<open>app\<close> with the children \<^verbatim>\<open>a\<close> and \<^verbatim>\<open>b\<close>; the file
  \<^verbatim>\<open>x.js\<close> is required by \<^verbatim>\<open>a.js\<close> and \<^verbatim>\<open>b.js\<close> only, and every file but \<^verbatim>\<open>base.js\<close> requires
  \<^verbatim>\<open>base.js\<close> directly or through \<^verbatim>\<open>x.js\<close>. The theorems below are applied to it.
\<close>

definition exBase :: Dependency where
  "exBase = \<lparr>depType = CLOSURE_PROVIDE, path = ''base.js'', closureSymbols = [''goog''],
             depImports = []\<rparr>"

definition exX :: Dependency where
  "exX = \<lparr>depType = CLOSURE_PROVIDE, path = ''x.js'', closureSymbols = [''X''],
          depImports = [''goog'']\<rparr>"

definition exAppJs :: Dependency where
  "exAppJs = \<lparr>depType = CLOSURE_PROVIDE, path = ''app.js'', closureSymbols = [''app''],
              depImports = [''goog'']\<rparr>"

definition exAJs :: Dependency where
  "exAJs = \<lparr>depType = CLOSURE_PROVIDE, path = ''a.js'', closureSymbols = [''a''],
            depImports = [''X'']\<rparr>"

definition exBJs :: Dependency where
  "exBJs = \<lparr>depType = CLOSURE_PROVIDE, path = ''b.js'', closureSymbols = [''b''],
            depImports = [''X'']\<rparr>"

definition exDependencies :: "Dependency list" where
  "exDependencies = [exBase, exX, exAppJs, exAJs, exBJs]"

text \<open>A dependency graph collaborator that knows the closures of the three entry files.\<close>

definition exOrder :: "unit \<Rightarrow> Dependency list \<Rightarrow> error + Dependency list" where
  "exOrder g entryPoints =
     (if map path entryPoints = [''app.js''] then Inr [exBase, exAppJs]
      else if map path entryPoints = [''a.js''] then Inr [exBase, exX, exAJs]
      else if map path entryPoints = [''b.js''] then Inr [exBase, exX, exBJs]
      else Inl (CollaboratorError ''unknown entry point''))"

definition exLib :: "unit DepGraph" where
  "exLib = \<lparr>newGraph = (\<lambda>ds. Inr ()), order = exOrder\<rparr>"

definition exModules :: Modules where
  "exModules = [(''app'', \<lparr>inputs = [''app.js''], deps = []\<rparr>),
                (''a'', \<lparr>inputs = [''a.js''], deps = [''app'']\<rparr>),
                (''b'', \<lparr>inputs = [''b.js''], deps = [''app'']\<rparr>)]"

text \<open>The same chunks with an entry file of \<^verbatim>\<open>b\<close> that no dependency has.\<close>

definition exModulesMissing :: Modules where
  "exModulesMissing = [(''app'', \<lparr>inputs = [''app.js''], deps = []\<rparr>),
                       (''a'', \<lparr>inputs = [''a.js''], deps = [''app'']\<rparr>),
                       (''b'', \<lparr>inputs = [''b.js'', ''missing.js''], deps = [''app'']\<rparr>)]"

text \<open>Another declaration of the chunks, with the same inputs for \<^verbatim>\<open>app\<close>, \<^verbatim>\<open>a\<close> and \<^verbatim>\<open>b\<close>.\<close>

definition exModulesOther :: Modules where
  "exModulesOther = [(''b'', \<lparr>inputs = [''b.js''], deps = []\<rparr>),
                     (''app'', \<lparr>inputs = [''app.js''], deps = []\<rparr>),
                     (''a'', \<lparr>inputs = [''a.js''], deps = [''b'']\<rparr>),
                     (''unused'', \<lparr>inputs = [''nowhere.js''], deps = []\<rparr>)]"

definition exIds :: "string list" where
  "exIds = [''app'', ''a'', ''b'']"

definition exDag :: Dag where
  "exDag = \<lparr>dagNodes = [\<lparr>nodeId = ''app'', nodeDeps = []\<rparr>,
                        \<lparr>nodeId = ''a'', nodeDeps = [''app'']\<rparr>,
                        \<lparr>nodeId = ''b'', nodeDeps = [''app'']\<rparr>]\<rparr>"

definition exT :: "(string, string jsSet) jsMap" where
  "exT = [(''app'', [''base.js'', ''app.js'']),
          (''a'', [''base.js'', ''x.js'', ''a.js'']),
          (''b'', [''base.js'', ''x.js'', ''b.js''])]"

definition exOut :: "(string, string jsSet) jsMap" where
  "exOut = [(''app'', [''base.js'', ''app.js'', ''x.js'']), (''a'', [''a.js'']), (''b'', [''b.js''])]"

text \<open>
  Two files that require each other, in one chunk. google-closure-deps orders a closure by
  visiting the requirements of a file before it adds the file, and does not visit a file
  again that it has entered: from \<^verbatim>\<open>app.js\<close> it reaches \<^verbatim>\<open>x.js\<close>, whose requirement \<^verbatim>\<open>app.js\<close> is
  already entered, so \<^verbatim>\<open>x.js\<close> is added first.
\<close>

definition exCycApp :: Dependency where
  "exCycApp = \<lparr>depType = CLOSURE_PROVIDE, path = ''app.js'', closureSymbols = [''app''],
               depImports = [''X'']\<rparr>"

definition exCycX :: Dependency where
  "exCycX = \<lparr>depType = CLOSURE_PROVIDE, path = ''x.js'', closureSymbols = [''X''],
             depImports = [''app'']\<rparr>"

definition exCycDependencies :: "Dependency list" where
  "exCycDependencies = [exCycApp, exCycX]"

definition exCycOrder :: "unit \<Rightarrow> Dependency list \<Rightarrow> error + Dependency list" where
  "exCycOrder g entryPoints =
     (if map path entryPoints = [''app.js''] then Inr [exCycX, exCycApp]
      else Inl (CollaboratorError ''unknown entry point''))"

definition exCycLib :: "unit DepGraph" where
  "exCycLib = \<lparr>newGraph = (\<lambda>ds. Inr ()), order = exCycOrder\<rparr>"

definition exCycModules :: Modules where
  "exCycModules = [(''app'', \<lparr>inputs = [''app.js''], deps = []\<rparr>)]"

definition exCycDag :: Dag where
  "exCycDag = \<lparr>dagNodes = [\<lparr>nodeId = ''app'', nodeDeps = []\<rparr>]\<rparr>"

text \<open>The outputs of the compiler for the three chunks, and a server around them.\<close>

definition exOutApp :: CompilerOutput where
  "exOutApp = \<lparr>outPath = ''app.js'', src = ''APP'', source_map = ''''\<rparr>"

definition exOutA :: CompilerOutput where
  "exOutA = \<lparr>outPath = ''a.js'', src = ''A'', source_map = ''''\<rparr>"

definition exOutB :: CompilerOutput where
  "exOutB = \<lparr>outPath = ''b.js'', src = ''B'', source_map = ''''\<rparr>"

definition exArgString :: "jsArg \<Rightarrow> error + string" where
  "exArgString a =
     (case a of
        Str s \<Rightarrow> Inr s
      | Arr xs \<Rightarrow> Inl (TypeError ''The path argument must be of type string''))"

definition exUrlToString :: "URL \<Rightarrow> string" where
  "exUrlToString u =
     urlBase u @ ''?'' @ joinWith ''&'' (map (\<lambda>(k, v). k @ ''='' @ v) (searchParams u))"

definition exEnv :: "unit Env" where
  "exEnv =
     \<lparr>depGraphLib = exLib,
      pathJoin = (\<lambda>args. case mapE exArgString args of
                            Inl e \<Rightarrow> Inl e
                          | Inr ss \<Rightarrow> Inr (joinWith ''/'' ss)),
      pathDirname = (\<lambda>p. p),
      pathResolve = (\<lambda>a b. a @ ''/'' @ b),
      pathRelative = (\<lambda>a b. b),
      inputsUrlPath = ''/inputs'',
      googBaseUrlPath = ''/closure/goog/base.js'',
      recursive = (\<lambda>p ignoreDirs. Inr []),
      parseFileAsync = (\<lambda>file. Inr \<lparr>pr_dependencies = [], pr_hasFatalError = False\<rparr>),
      readFile = (\<lambda>p. Inr ''goog.addDependency''),
      parseDependencyFile = (\<lambda>content p. \<lparr>dfr_dependencies = [exBase], dfr_errors = []\<rparr>),
      setClosurePath = (\<lambda>dir dep. dep),
      getDepFileText = (\<lambda>dir ds. Inr (joinWith '';'' (map path ds))),
      stripIndents = (\<lambda>s. s),
      jsonStringify = (\<lambda>obj. joinWith '','' (map (\<lambda>(k, vs). k @ '':'' @ joinWith '' '' vs) obj)),
      replaceNewlines = (\<lambda>s r. s),
      replaceFirst = (\<lambda>s pattern r. r),
      newURL = (\<lambda>url base. Inr \<lparr>urlBase = base @ takeWhile (\<lambda>c. c \<noteq> CHR ''?'') url,
                                     searchParams = [(''id'', ''main'')]\<rparr>),
      urlToString = exUrlToString,
      tempyFile = (\<lambda>n. ''closure.conf.'' @ showNat n),
      run = (\<lambda>useNative opts files. \<lparr>exitCode = 0, stdout = ''[app,a,b]'', stderr = None\<rparr>),
      jsonParse = (\<lambda>s. Inr [exOutApp, exOutA, exOutB])\<rparr>"



definition exConfig :: DuckConfig where
  "exConfig = \<lparr>closureLibraryDir = ''/lib'', inputsRoot = ''/src''\<rparr>"

definition exEntryConfig :: EntryConfig where
  "exEntryConfig =
     \<lparr>ec_id = ''main'', ec_mode = Some PlovrSIMPLE, ec_modules = Some exModules,
      ec_paths = [''/src''], ec_inputs = None, ec_externs = None, ec_debug = None,
      ec_language_in = None, ec_language_out = None, ec_level = None,
      ec_global_scope_name = None, ec_module_output_path = None, ec_output_file = None,
      ec_pretty_print = None, ec_print_input_delimiter = None, ec_define = None,
      ec_checks = None, ec_output_wrapper = None, ec_test_excludes = None\<rparr>"

text \<open>The same id with other paths.\<close>

definition exEntryConfigMoved :: EntryConfig where
  "exEntryConfigMoved = exEntryConfig\<lparr>ec_paths := [''/elsewhere''], ec_test_excludes := Some [''/t'']\<rparr>"

text \<open>A state in which the dependencies of \<^verbatim>\<open>main\<close> are cached and nothing was compiled.\<close>

definition exState :: ServerState where
  "exState =
     \<lparr>entryIdToChunkCache = Map.empty,
      dependenciesCache = [''main'' \<mapsto> [exX, exAppJs, exAJs, exBJs]],
      depFileTextCache = [''main'' \<mapsto> ''goog.addDependency(x.js)''],
      compilerRuns = [],
      flagfiles = []\<rparr>"


definition exSession :: Session where
  "exSession =
     \<lparr>ownProps = [(''app'', Some exOutApp), (''a'', Some exOutA), (''b'', Some exOutB)],
      protoOf = None\<rparr>"

text \<open>The state after a first request had the id \<^verbatim>\<open>R1\<close>; an older session under \<^verbatim>\<open>R0\<close> holds
  another artifact for \<^verbatim>\<open>app\<close>.\<close>

definition exOldSession :: Session where
  "exOldSession = \<lparr>ownProps = [(''app'', Some (exOutApp\<lparr>src := ''OLD''\<rparr>))], protoOf = None\<rparr>"

definition exStateCached :: ServerState where
  "exStateCached =
     exState\<lparr>entryIdToChunkCache := [''main'' \<mapsto> [''R0'' \<mapsto> exOldSession, ''R1'' \<mapsto> exSession]]\<rparr>"

text \<open>A declaration with a chunk named \<^verbatim>\<open>__proto__\<close>.\<close>

definition exModulesProto :: Modules where
  "exModulesProto = [(''app'', \<lparr>inputs = [''app.js''], deps = []\<rparr>),
                     (''__proto__'', \<lparr>inputs = [''a.js''], deps = [''app'']\<rparr>)]"

definition exQuery :: "string option \<Rightarrow> string option \<Rightarrow> CompileQuery" where
  "exQuery c p = \<lparr>q_id = ''main'', q_mode = None, q_chunk = c, q_parentRequest = p\<rparr>"

definition exBaseUrl :: string where
  "exBaseUrl = ''http://localhost:9810''"

definition exUrl :: string where
  "exUrl = ''/compile?id=main''"

section \<open>Reading the chunk cache\<close>

text \<open>The session stored for an entry id and a request id, and the artifact in it for a chunk:
  the value of the session's own property of that name.\<close>

definition sessionOf :: "ServerState \<Rightarrow> string \<Rightarrow> string \<Rightarrow> Session option" where
  "sessionOf s entryId requestId =
     (case entryIdToChunkCache s entryId of None \<Rightarrow> None | Some chunkCache \<Rightarrow> chunkCache requestId)"

definition artifactOf :: "ServerState \<Rightarrow> string \<Rightarrow> string \<Rightarrow> string \<Rightarrow> CompilerOutput option option" where
  "artifactOf s entryId requestId chunkId =
     (case sessionOf s entryId requestId of
        None \<Rightarrow> None
      | Some session \<Rightarrow> Map_get (ownProps session) chunkId)"

text \<open>
  What the server runs the compiler with: the flag file that \<^verbatim>\<open>convertToFlagfile\<close> wrote, and
  \<^verbatim>\<open>json_streams\<close> as \<^verbatim>\<open>compileToJson\<close> sets it.
\<close>

definition flagOptions :: "string \<Rightarrow> CompilerOptions" where
  "flagOptions file = emptyOptions\<lparr>flagfile := Some file, json_streams := Some ''OUT''\<rparr>"

section \<open>Properties of the splitting engine\<close>

subsection \<open>Maps and sets in insertion order\<close>

lemma Map_set_keys:
  "map fst (Map_set m k v) = (if k \<in> fst ` set m then map fst m else map fst m @ [k])"
  by (induction m k v rule: Map_set.induct) auto

lemma Map_set_map_of: "map_of (Map_set m k v) = (map_of m)(k \<mapsto> v)"
  by (induction m k v rule: Map_set.induct) (auto simp: fun_eq_iff)

lemma foldl_Set_add: "foldl Set_add s xs = s @ filter (\<lambda>x. x \<notin> set s) (firstOcc xs)"
proof (induction xs arbitrary: s)
  case Nil
  then show ?case by simp
next
  case (Cons x xs)
  show ?case
  proof (cases "x \<in> set s")
    case True
    have "filter (\<lambda>y. y \<notin> set s) (filter (\<lambda>y. y \<noteq> x) (firstOcc xs)) = filter (\<lambda>y. y \<notin> set s) (firstOcc xs)"
      using True by (auto intro: filter_cong)
    with True Cons show ?thesis by (simp add: Set_add_def)
  next
    case False
    have "filter (\<lambda>y. y \<notin> set (s @ [x])) (firstOcc xs) = filter (\<lambda>y. y \<notin> set s) (filter (\<lambda>y. y \<noteq> x) (firstOcc xs))"
      by (auto intro: filter_cong)
    with False Cons[of "s @ [x]"] show ?thesis by (simp add: Set_add_def)
  qed
qed

lemma new_Set_firstOcc: "new_Set xs = firstOcc xs"
  by (simp add: new_Set_def foldl_Set_add)

lemma set_firstOcc [simp]: "set (firstOcc xs) = set xs"
  by (induction xs) auto

lemma distinct_firstOcc [simp]: "distinct (firstOcc xs)"
  by (induction xs) auto

lemma takeWhile_filter_commute:
  "takeWhile (\<lambda>x. x \<noteq> b) (filter P xs) = filter P (takeWhile (\<lambda>x. x \<noteq> b) xs)" if "P b"
  using that by (induction xs) auto

lemma precedes_firstOcc: "precedes (firstOcc xs) a b = precedes xs a b"
proof (induction xs)
  case Nil
  then show ?case by (simp add: precedes_def)
next
  case (Cons x xs)
  show ?case
  proof (cases "x = b")
    case True
    then show ?thesis by (simp add: precedes_def)
  next
    case False
    then have "takeWhile (\<lambda>y. y \<noteq> b) (filter (\<lambda>y. y \<noteq> x) (firstOcc xs))
             = filter (\<lambda>y. y \<noteq> x) (takeWhile (\<lambda>y. y \<noteq> b) (firstOcc xs))"
      by (intro takeWhile_filter_commute) simp
    with False Cons show ?thesis by (auto simp: precedes_def)
  qed
qed

lemma precedes_filter:
  "precedes xs a b \<Longrightarrow> P a \<Longrightarrow> P b \<Longrightarrow> precedes (filter P xs) a b"
  by (simp add: precedes_def takeWhile_filter_commute)

lemma precedes_nth:
  assumes "distinct s" "i < length s" "precedes s a (s ! i)"
  shows "\<exists>j<i. s ! j = a"
proof -
  have "takeWhile (\<lambda>x. x \<noteq> s ! i) s = take i s"
    using assms(1,2) by (simp add: takeWhile_eq_take_P_nth nth_eq_iff_index_eq)
  with assms(3) have "a \<in> set (take i s)" by (simp add: precedes_def)
  then show ?thesis using assms(2) by (auto simp: in_set_conv_nth)
qed

lemma precedes_concat:
  assumes "f \<in> set (concat xss)"
  shows "\<exists>R \<in> set xss. f \<in> set R \<and> (\<forall>a. precedes R a f \<longrightarrow> precedes (concat xss) a f)"
  using assms
proof (induction xss)
  case Nil
  then show ?case by simp
next
  case (Cons X xss)
  show ?case
  proof (cases "f \<in> set X")
    case True
    then have "takeWhile (\<lambda>x. x \<noteq> f) (X @ concat xss) = takeWhile (\<lambda>x. x \<noteq> f) X"
      by (intro takeWhile_append1[of f]) auto
    with True show ?thesis by (auto simp: precedes_def)
  next
    case False
    then have "takeWhile (\<lambda>x. x \<noteq> f) (X @ concat xss) = X @ takeWhile (\<lambda>x. x \<noteq> f) (concat xss)"
      by (intro takeWhile_append2) auto
    moreover from False Cons obtain R where "R \<in> set xss" "f \<in> set R"
      "\<forall>a. precedes R a f \<longrightarrow> precedes (concat xss) a f" by auto
    ultimately show ?thesis by (auto simp: precedes_def)
  qed
qed

subsection \<open>The loops of splitDepsIntoChunks\<close>

lemma placePath_Inr:
  assumes "placePath lca t out p = Inr out'"
  shows "\<exists>c s. targetOf lca t p = Some c \<and> map_of out c = Some s \<and> out' = Map_set out c (Set_add s p)"
  using assms
  by (auto simp: placePath_def targetOf_def assertNonNullable_def Map_get_def
           split: sum.splits option.splits)

lemma placePaths_append:
  "placePaths lca t (xs @ ys) out =
     (case placePaths lca t xs out of Inl e \<Rightarrow> Inl e | Inr out' \<Rightarrow> placePaths lca t ys out')"
  by (induction xs arbitrary: out) (auto split: sum.splits)

lemma placeAll_concat: "placeAll lca t vs out = placePaths lca t (concat vs) out"
  by (induction vs arbitrary: out) (auto simp: placePaths_append split: sum.splits)

lemma placePaths_inv:
  assumes "placePaths lca t ps out = Inr out'"
  shows "map fst out' = map fst out"
    and "\<forall>p\<in>set ps. \<exists>c. targetOf lca t p = Some c \<and> c \<in> fst ` set out"
    and "\<forall>c s. map_of out c = Some s \<longrightarrow>
           map_of out' c = Some (foldl Set_add s [p\<leftarrow>ps. targetOf lca t p = Some c])"
  using assms
proof (induction ps arbitrary: out)
  case Nil
  { case 1 then show ?case by simp }
  { case 2 then show ?case by simp }
  { case 3 then show ?case by simp }
next
  case (Cons p ps)
  { case 1
    then obtain o1 where o1: "placePath lca t out p = Inr o1" "placePaths lca t ps o1 = Inr out'"
      by (auto split: sum.splits)
    from placePath_Inr[OF o1(1)] obtain c s where
      cs: "targetOf lca t p = Some c" "map_of out c = Some s" "o1 = Map_set out c (Set_add s p)"
      by blast
    from cs(2) have "c \<in> fst ` set out" by (metis map_of_eq_None_iff option.distinct(1))
    with cs(3) have "map fst o1 = map fst out" by (simp add: Map_set_keys)
    with Cons.IH(1)[OF o1(2)] show ?case by simp }
  { case 2
    then obtain o1 where o1: "placePath lca t out p = Inr o1" "placePaths lca t ps o1 = Inr out'"
      by (auto split: sum.splits)
    from placePath_Inr[OF o1(1)] obtain c s where
      cs: "targetOf lca t p = Some c" "map_of out c = Some s" "o1 = Map_set out c (Set_add s p)"
      by blast
    from cs(2) have c: "c \<in> fst ` set out" by (metis map_of_eq_None_iff option.distinct(1))
    with cs(3) have "map fst o1 = map fst out" by (simp add: Map_set_keys)
    then have "fst ` set o1 = fst ` set out" by (metis set_map)
    with Cons.IH(2)[OF o1(2)] c cs(1) show ?case by auto }
  { case 3
    then obtain o1 where o1: "placePath lca t out p = Inr o1" "placePaths lca t ps o1 = Inr out'"
      by (auto split: sum.splits)
    from placePath_Inr[OF o1(1)] obtain c s where
      cs: "targetOf lca t p = Some c" "map_of out c = Some s" "o1 = Map_set out c (Set_add s p)"
      by blast
    have m: "map_of o1 = (map_of out)(c \<mapsto> Set_add s p)" by (simp add: cs(3) Map_set_map_of)
    show ?case
    proof (intro allI impI)
      fix c' s' assume a: "map_of out c' = Some s'"
      show "map_of out' c' = Some (foldl Set_add s' [q\<leftarrow>p # ps. targetOf lca t q = Some c'])"
      proof (cases "c' = c")
        case True
        with a cs(2) have "s' = s" by simp
        moreover from m True have "map_of o1 c' = Some (Set_add s p)" by simp
        ultimately show ?thesis using Cons.IH(3)[OF o1(2)] True cs(1) by simp
      next
        case False
        with m a have "map_of o1 c' = Some s'" by simp
        then show ?thesis using Cons.IH(3)[OF o1(2)] False cs(1) by auto
      qed
    qed }
qed

lemma initial_keys:
  "map_of (foldl (\<lambda>m chunk. Map_set m chunk []) m0 ids) c =
     (if c \<in> set ids then Some [] else map_of m0 c)"
  by (induction ids arbitrary: m0) (auto simp: Map_set_map_of)

lemma initial_distinct:
  "distinct (map fst m0) \<Longrightarrow> distinct (map fst (foldl (\<lambda>m chunk. Map_set m chunk ([]::string list)) m0 ids))"
  by (induction ids arbitrary: m0) (auto simp: Map_set_keys)

lemma initial_dom:
  "fst ` set (foldl (\<lambda>m chunk. Map_set m chunk ([]::string list)) m0 ids) = fst ` set m0 \<union> set ids"
proof (induction ids arbitrary: m0)
  case Nil then show ?case by simp
next
  case (Cons a ids)
  have "fst ` set (Map_set m0 a ([]::string list)) = insert a (fst ` set m0)"
    using Map_set_keys[of m0 a "[]"] by (metis (no_types, lifting) Un_insert_right append_Nil2 insert_absorb list.set(2) list.simps(15) set_append set_map)
  with Cons show ?case by auto
qed

lemma splitDepsIntoChunks_closed:
  assumes "splitDepsIntoChunks ids t lca = Inr out"
  shows "distinct (map fst out)"
    and "fst ` set out = set ids"
    and "\<forall>p\<in>set (visitSeq t). \<exists>c. targetOf lca t p = Some c \<and> c \<in> set ids"
    and "\<forall>(c, s)\<in>set out. s = firstOcc [p\<leftarrow>visitSeq t. targetOf lca t p = Some c]"
proof -
  let ?o0 = "foldl (\<lambda>m chunk. Map_set m chunk ([]::string list)) [] ids"
  from assms have pp: "placePaths lca t (visitSeq t) ?o0 = Inr out"
    by (simp add: splitDepsIntoChunks_def placeAll_concat visitSeq_def)
  have d0: "distinct (map fst ?o0)" by (rule initial_distinct) simp
  have k0: "fst ` set ?o0 = set ids" using initial_dom[of "[]" ids] by simp
  from placePaths_inv(1)[OF pp] d0 show d: "distinct (map fst out)" by simp
  from placePaths_inv(1)[OF pp] k0 show "fst ` set out = set ids" by (metis set_map)
  from placePaths_inv(2)[OF pp] k0 show "\<forall>p\<in>set (visitSeq t). \<exists>c. targetOf lca t p = Some c \<and> c \<in> set ids"
    by simp
  show "\<forall>(c, s)\<in>set out. s = firstOcc [p\<leftarrow>visitSeq t. targetOf lca t p = Some c]"
  proof (clarify)
    fix c s assume cs: "(c, s) \<in> set out"
    then have "c \<in> set ids" using \<open>fst ` set out = set ids\<close> by force
    then have "map_of ?o0 c = Some []" by (simp add: initial_keys)
    with placePaths_inv(3)[OF pp] have "map_of out c = Some (foldl Set_add [] [p\<leftarrow>visitSeq t. targetOf lca t p = Some c])"
      by blast
    moreover from d cs have "map_of out c = Some s" by simp
    ultimately show "s = firstOcc [p\<leftarrow>visitSeq t. targetOf lca t p = Some c]"
      by (simp add: foldl_Set_add)
  qed
qed

subsection \<open>The lowest common ancestor is a common ancestor\<close>

lemma ancestorsIter_sound:
  "a \<in> set (ancestorsIter k nodes S) \<Longrightarrow> \<exists>c\<in>set S. ancestorOrSelf nodes a c"
proof (induction k arbitrary: S)
  case 0
  then show ?case by (auto intro: ancestorOrSelf.self)
next
  case (Suc k)
  then obtain c' where c': "c' \<in> set S \<or> c' \<in> set (concat (map (parentsOf nodes) S))"
    and anc: "ancestorOrSelf nodes a c'"
    by fastforce
  from c' show ?case
  proof
    assume "c' \<in> set S" with anc show ?thesis by blast
  next
    assume "c' \<in> set (concat (map (parentsOf nodes) S))"
    then obtain c n where "c \<in> set S" "n \<in> set nodes" "nodeId n = c" "c' \<in> set (nodeDeps n)"
      by (auto simp: parentsOf_def)
    with anc show ?thesis by (metis ancestorOrSelf.parent)
  qed
qed

lemma ancestorClosure_sound:
  "a \<in> set (ancestorClosure dag c) \<Longrightarrow> ancestorOrSelf (dagNodes dag) a c"
  using ancestorsIter_sound[of a _ _ "[c]"] by (auto simp: ancestorClosure_def)

lemma commonAncestors_sound:
  "a \<in> set (commonAncestors dag ids) \<Longrightarrow> j \<in> set ids \<Longrightarrow> ancestorOrSelf (dagNodes dag) a j"
  by (cases ids) (auto simp: commonAncestors_def intro: ancestorClosure_sound)

lemma getLcaNode_sound:
  assumes "getLcaNode dag ids = Inr n" "j \<in> set ids"
  shows "ancestorOrSelf (dagNodes dag) (nodeId n) j"
proof -
  define common where "common = commonAncestors dag ids"
  define deepest where "deepest = filter (\<lambda>c. c \<in> set common \<and> depth dag c = fold max (map (depth dag) common) 0) (getSortedIds dag)"
  from assms(1) have ne: "deepest \<noteq> []" and f: "find (\<lambda>n. nodeId n = last deepest) (dagNodes dag) = Some n"
    by (auto simp: getLcaNode_def Let_def common_def deepest_def split: if_splits option.splits)
  from f have "nodeId n = last deepest" by (auto simp: find_Some_iff)
  moreover from ne have "last deepest \<in> set deepest" by simp
  then have "last deepest \<in> set common" by (simp add: deepest_def)
  ultimately show ?thesis using commonAncestors_sound assms(2) by (simp add: common_def)
qed

subsection \<open>The transitive sets\<close>

lemma Map_set_subset: "set (Map_set m k v) \<subseteq> insert (k, v) (set m)"
  by (induction m k v rule: Map_set.induct) auto

lemma findTransitiveDeps_loop_sets:
  assumes "findTransitiveDeps_loop lib graph pathToDep modules ids acc = Inr t"
    and "(c, s) \<in> set t"
  shows "(c, s) \<in> set acc \<or>
         (\<exists>ps. c \<in> set ids \<and> transitiveDepPaths lib graph pathToDep modules c = Inr ps \<and> s = new_Set ps)"
  using assms
proof (induction ids arbitrary: acc)
  case Nil
  then show ?case by simp
next
  case (Cons chunkId rest)
  from Cons.prems(1) obtain ps where
    ps: "transitiveDepPaths lib graph pathToDep modules chunkId = Inr ps"
    and rec: "findTransitiveDeps_loop lib graph pathToDep modules rest (Map_set acc chunkId (new_Set ps)) = Inr t"
    by (auto split: sum.splits)
  from Cons.IH[OF rec Cons.prems(2)] show ?case
  proof
    assume "(c, s) \<in> set (Map_set acc chunkId (new_Set ps))"
    with Map_set_subset[of acc chunkId "new_Set ps"] have "(c, s) = (chunkId, new_Set ps) \<or> (c, s) \<in> set acc"
      by auto
    with ps show ?thesis by auto
  next
    assume "\<exists>ps. c \<in> set rest \<and> transitiveDepPaths lib graph pathToDep modules c = Inr ps \<and> s = new_Set ps"
    then show ?thesis by auto
  qed
qed

lemma topoOrdered_firstOcc: "topoOrdered dependencies ps \<Longrightarrow> topoOrdered dependencies (firstOcc ps)"
  by (simp add: topoOrdered_def precedes_firstOcc)

lemma findTransitiveDeps_ordered:
  assumes "closuresOrdered lib ids dependencies modules"
    and "findTransitiveDeps lib ids dependencies modules = Inr t"
    and "(c, s) \<in> set t"
  shows "topoOrdered dependencies s"
proof -
  from assms(2) obtain graph where g: "newGraph lib dependencies = Inr graph"
    and l: "findTransitiveDeps_loop lib graph (pathToDepOf dependencies) modules ids [] = Inr t"
    by (auto simp: findTransitiveDeps_def Let_def split: sum.splits)
  from findTransitiveDeps_loop_sets[OF l assms(3)] obtain ps where
    ps: "c \<in> set ids" "transitiveDepPaths lib graph (pathToDepOf dependencies) modules c = Inr ps" "s = new_Set ps"
    by auto
  from assms(1) g ps(1,2) have "topoOrdered dependencies ps"
    by (auto simp: closuresOrdered_def split: sum.splits)
  with ps(3) show ?thesis by (simp add: new_Set_firstOcc topoOrdered_firstOcc)
qed

lemma in_out_iff:
  assumes "splitDepsIntoChunks ids t lca = Inr out" "(c, s) \<in> set out"
  shows "p \<in> set s \<longleftrightarrow> p \<in> set (visitSeq t) \<and> targetOf lca t p = Some c"
  using splitDepsIntoChunks_closed(4)[OF assms(1)] assms(2) by auto

text \<open>
  Claim C3, as the code has it. The engine takes the files of a chunk in the order in which
  the closures of the dependency graph list them; it does not sort and it does not check.
  So let the closures that the dependency graph returned for the chunks be topologically
  ordered, and let the engine return \<open>out\<close>. Then in the list of every chunk, a file at
  position \<open>i\<close> comes after each file of that list it requires directly: such a file is at a
  position below \<open>i\<close>. This holds for every \<^verbatim>\<open>getLcaNode\<close>. Without the assumption the property
  fails: files that require each other have no such order.
\<close>

theorem splitDepsIntoChunks_ordering:
  assumes "closuresOrdered lib sortedChunkIds dependencies modules"
    and "findTransitiveDeps lib sortedChunkIds dependencies modules = Inr t"
    and "splitDepsIntoChunks sortedChunkIds t lca = Inr out"
  shows "\<forall>(c, s)\<in>set out. \<forall>i<length s. \<forall>g\<in>set s.
           directDepPath dependencies (s ! i) g \<longrightarrow> (\<exists>j<i. s ! j = g)"
proof (intro ballI, clarify)
  fix c s i g
  assume cs: "(c, s) \<in> set out" and i: "i < length s" and g: "g \<in> set s"
    and dd: "directDepPath dependencies (s ! i) g"
  let ?P = "\<lambda>p. targetOf lca t p = Some c"
  have s: "s = firstOcc (filter ?P (visitSeq t))"
    using splitDepsIntoChunks_closed(4)[OF assms(3)] cs by auto
  have f_in: "s ! i \<in> set s" using i by simp
  from f_in have Pf: "?P (s ! i)" and f_seq: "s ! i \<in> set (visitSeq t)"
    using in_out_iff[OF assms(3) cs] by auto
  from g have Pg: "?P g" using in_out_iff[OF assms(3) cs] by auto
  from f_seq obtain R where R: "R \<in> set (Map_values t)" "s ! i \<in> set R"
    "\<forall>a. precedes R a (s ! i) \<longrightarrow> precedes (visitSeq t) a (s ! i)"
    using precedes_concat[of "s ! i" "Map_values t"] by (auto simp: visitSeq_def)
  from R(1) obtain r where "(r, R) \<in> set t" by (auto simp: Map_values_def)
  then have "topoOrdered dependencies R"
    using findTransitiveDeps_ordered[OF assms(1,2)] by blast
  with dd R(2) have "precedes R g (s ! i)"
    by (auto simp: topoOrdered_def directDepPath_def)
  with R(3) have "precedes (visitSeq t) g (s ! i)" by blast
  then have "precedes (filter ?P (visitSeq t)) g (s ! i)"
    using Pg Pf by (rule precedes_filter)
  then have "precedes s g (s ! i)" by (simp add: s precedes_firstOcc)
  moreover have "distinct s" by (simp add: s)
  ultimately show "\<exists>j<i. s ! j = g" using i by (intro precedes_nth)
qed

lemma visitSeq_set: "set (visitSeq t) = (\<Union>(c, s)\<in>set t. set s)"
  by (auto simp: visitSeq_def Map_values_def)

lemma chunkIdsWithDep_mem: "(r, ps) \<in> set t \<Longrightarrow> p \<in> set ps \<Longrightarrow> r \<in> set (chunkIdsWithDep t p)"
  by (force simp: chunkIdsWithDep_def Set_has_def)

text \<open>
  Claim C2. When \<^verbatim>\<open>splitDepsIntoChunks\<close> returns \<open>out\<close> for the transitive sets \<open>t\<close> and the
  DAG \<open>dag\<close>: the chunk ids of \<open>out\<close> are distinct, no list of \<open>out\<close> has a file twice, the
  lists hold exactly the files of the transitive sets, every such file is in the list of
  exactly one chunk, and that chunk is an ancestor-or-self of every chunk whose transitive
  set has the file.
\<close>

theorem splitDepsIntoChunks_partition:
  assumes "splitDepsIntoChunks sortedChunkIds t (getLcaNode dag) = Inr out"
  shows "distinct (map fst out) \<and>
         (\<forall>(c, s)\<in>set out. distinct s) \<and>
         (\<Union>(c, s)\<in>set out. set s) = (\<Union>(c, s)\<in>set t. set s) \<and>
         (\<forall>p\<in>(\<Union>(c, s)\<in>set t. set s). \<exists>!c. \<exists>s. (c, s) \<in> set out \<and> p \<in> set s) \<and>
         (\<forall>(c, s)\<in>set out. \<forall>p\<in>set s. \<forall>(r, ps)\<in>set t.
            p \<in> set ps \<longrightarrow> ancestorOrSelf (dagNodes dag) c r)"
proof -
  note cl = splitDepsIntoChunks_closed[OF assms]
  note io = in_out_iff[OF assms]
  have d: "distinct (map fst out)" by (rule cl(1))
  have ds: "\<forall>(c, s)\<in>set out. distinct s" using cl(4) by auto
  have cover: "\<exists>c s. (c, s) \<in> set out \<and> p \<in> set s" if "p \<in> set (visitSeq t)" for p
  proof -
    from cl(3) that obtain c where c: "targetOf (getLcaNode dag) t p = Some c" "c \<in> set sortedChunkIds"
      by blast
    with cl(2) obtain s where "(c, s) \<in> set out" by force
    with io[of c s p] that c(1) show ?thesis by blast
  qed
  have un: "(\<Union>(c, s)\<in>set out. set s) = (\<Union>(c, s)\<in>set t. set s)"
  proof (intro set_eqI iffI)
    fix p assume "p \<in> (\<Union>(c, s)\<in>set out. set s)"
    then obtain c s where "(c, s) \<in> set out" "p \<in> set s" by auto
    with io[of c s p] have "p \<in> set (visitSeq t)" by simp
    then show "p \<in> (\<Union>(c, s)\<in>set t. set s)" by (simp add: visitSeq_set)
  next
    fix p assume "p \<in> (\<Union>(c, s)\<in>set t. set s)"
    then have "p \<in> set (visitSeq t)" by (simp add: visitSeq_set)
    from cover[OF this] show "p \<in> (\<Union>(c, s)\<in>set out. set s)" by auto
  qed
  have uniq: "\<forall>p\<in>(\<Union>(c, s)\<in>set t. set s). \<exists>!c. \<exists>s. (c, s) \<in> set out \<and> p \<in> set s"
  proof
    fix p assume "p \<in> (\<Union>(c, s)\<in>set t. set s)"
    then have p: "p \<in> set (visitSeq t)" by (simp add: visitSeq_set)
    from cover[OF p] obtain c s where cs: "(c, s) \<in> set out" "p \<in> set s" by blast
    show "\<exists>!c. \<exists>s. (c, s) \<in> set out \<and> p \<in> set s"
    proof (rule ex1I[of _ c])
      show "\<exists>s. (c, s) \<in> set out \<and> p \<in> set s" using cs by blast
    next
      fix c' assume "\<exists>s. (c', s) \<in> set out \<and> p \<in> set s"
      then obtain s' where "(c', s') \<in> set out" "p \<in> set s'" by blast
      with io[of c' s' p] io[of c s p] cs show "c' = c" by simp
    qed
  qed
  have anc: "\<forall>(c, s)\<in>set out. \<forall>p\<in>set s. \<forall>(r, ps)\<in>set t.
            p \<in> set ps \<longrightarrow> ancestorOrSelf (dagNodes dag) c r"
  proof (clarify)
    fix c s p r ps
    assume a: "(c, s) \<in> set out" "p \<in> set s" "(r, ps) \<in> set t" "p \<in> set ps"
    from io[OF a(1), of p] a(2) have "targetOf (getLcaNode dag) t p = Some c" by simp
    then obtain n where n: "getLcaNode dag (chunkIdsWithDep t p) = Inr n" "nodeId n = c"
      by (auto simp: targetOf_def split: sum.splits)
    from getLcaNode_sound[OF n(1) chunkIdsWithDep_mem[OF a(3,4)]] n(2)
    show "ancestorOrSelf (dagNodes dag) c r" by simp
  qed
  from d ds un uniq anc show ?thesis by blast
qed

subsection \<open>Entry files\<close>

lemma pathToDepOf_None: "pathToDepOf dependencies input = None \<longleftrightarrow> input \<notin> path ` set dependencies"
  by (simp add: pathToDepOf_def map_of_eq_None_iff image_image)

lemma entryPointsOf_Inr:
  "entryPointsOf pathToDep ins = Inr ds \<Longrightarrow> \<forall>input\<in>set ins. pathToDep input \<noteq> None"
  by (induction ins arbitrary: ds) (auto simp: assertNonNullable_def split: option.splits sum.splits)

lemma entryPointsOf_Inl:
  "entryPointsOf pathToDep ins = Inl e \<Longrightarrow>
     \<exists>input\<in>set ins. pathToDep input = None \<and> e = MissingEntryPointError (missingEntryMessage input)"
  by (induction ins) (auto simp: assertNonNullable_def missingEntryMessage_def split: option.splits sum.splits)

lemma findTransitiveDeps_loop_Inr:
  "findTransitiveDeps_loop lib graph pathToDep modules ids acc = Inr t \<Longrightarrow>
     \<forall>c\<in>set ids. \<exists>ps. transitiveDepPaths lib graph pathToDep modules c = Inr ps"
  by (induction ids arbitrary: acc) (auto split: sum.splits)

lemma findTransitiveDeps_loop_Inl:
  "findTransitiveDeps_loop lib graph pathToDep modules ids acc = Inl e \<Longrightarrow>
     \<exists>c\<in>set ids. transitiveDepPaths lib graph pathToDep modules c = Inl e"
  by (induction ids arbitrary: acc) (auto split: sum.splits)

text \<open>
  Claim C7. If an entry file declared for one of the sorted chunks is the path of no
  dependency, \<^verbatim>\<open>findTransitiveDeps\<close> fails and so produces no placement; hence it returns
  transitive sets only when every declared entry file of every sorted chunk is present.
  When the collaborator raised nothing in the run, the error is the one of the assertion on
  the entry file, for a file that is missing.
\<close>

theorem findTransitiveDeps_missing_entry:
  assumes "chunkId \<in> set sortedChunkIds"
    and "map_of modules chunkId = Some chunkConfig"
    and "input \<in> set (inputs chunkConfig)"
    and "input \<notin> path ` set dependencies"
  shows "\<exists>e. findTransitiveDeps lib sortedChunkIds dependencies modules = Inl e \<and>
           (closuresReturn lib sortedChunkIds dependencies modules \<longrightarrow>
              (\<exists>missing. missing \<notin> path ` set dependencies \<and>
                 e = MissingEntryPointError (missingEntryMessage missing)))"
proof (cases "findTransitiveDeps lib sortedChunkIds dependencies modules")
  case (Inr t)
  then obtain graph where
    l: "findTransitiveDeps_loop lib graph (pathToDepOf dependencies) modules sortedChunkIds [] = Inr t"
    by (auto simp: findTransitiveDeps_def Let_def split: sum.splits)
  from findTransitiveDeps_loop_Inr[OF l] assms(1) obtain ps where
    "transitiveDepPaths lib graph (pathToDepOf dependencies) modules chunkId = Inr ps" by blast
  with assms(2) obtain eps where "entryPointsOf (pathToDepOf dependencies) (inputs chunkConfig) = Inr eps"
    by (auto simp: transitiveDepPaths_def split: sum.splits)
  from entryPointsOf_Inr[OF this] assms(3) have "pathToDepOf dependencies input \<noteq> None" by blast
  with assms(4) show ?thesis by (simp add: pathToDepOf_None)
next
  case (Inl e)
  have "\<exists>missing. missing \<notin> path ` set dependencies \<and> e = MissingEntryPointError (missingEntryMessage missing)"
    if cr: "closuresReturn lib sortedChunkIds dependencies modules"
  proof -
    from cr obtain graph where g: "newGraph lib dependencies = Inr graph"
      by (auto simp: closuresReturn_def split: sum.splits)
    with Inl have "findTransitiveDeps_loop lib graph (pathToDepOf dependencies) modules sortedChunkIds [] = Inl e"
      by (simp add: findTransitiveDeps_def)
    from findTransitiveDeps_loop_Inl[OF this] obtain c where
      c: "c \<in> set sortedChunkIds" "transitiveDepPaths lib graph (pathToDepOf dependencies) modules c = Inl e"
      by blast
    from cr g c(1) obtain cfg where cfg: "map_of modules c = Some cfg"
      and ok: "case entryPointsOf (pathToDepOf dependencies) (inputs cfg) of
                 Inl e \<Rightarrow> True
               | Inr entryPoints \<Rightarrow> (case order lib graph entryPoints of Inl e \<Rightarrow> False | Inr ds \<Rightarrow> True)"
      by (auto simp: closuresReturn_def split: option.splits)
    from c(2) cfg ok have "entryPointsOf (pathToDepOf dependencies) (inputs cfg) = Inl e"
      by (auto simp: transitiveDepPaths_def split: sum.splits)
    from entryPointsOf_Inl[OF this] show ?thesis by (auto simp: pathToDepOf_None)
  qed
  with Inl show ?thesis by blast
qed

theorem findTransitiveDeps_missing_entry_witness:
  "''b'' \<in> set exIds \<and>
   map_of exModulesMissing ''b'' = Some \<lparr>inputs = [''b.js'', ''missing.js''], deps = [''app'']\<rparr> \<and>
   ''missing.js'' \<in> set (inputs \<lparr>inputs = [''b.js'', ''missing.js''], deps = [''app'']\<rparr>) \<and>
   ''missing.js'' \<notin> path ` set exDependencies \<and>
   closuresReturn exLib exIds exDependencies exModulesMissing \<and>
   (\<exists>e. findTransitiveDeps exLib exIds exDependencies exModulesMissing = Inl e \<and>
      (closuresReturn exLib exIds exDependencies exModulesMissing \<longrightarrow>
         (\<exists>missing. missing \<notin> path ` set exDependencies \<and>
            e = MissingEntryPointError (missingEntryMessage missing))))"
proof -
  have h1: "''b'' \<in> set exIds" by code_simp
  have h2: "map_of exModulesMissing ''b'' =
              Some \<lparr>inputs = [''b.js'', ''missing.js''], deps = [''app'']\<rparr>"
    by code_simp
  have h3: "''missing.js'' \<in> set (inputs \<lparr>inputs = [''b.js'', ''missing.js''], deps = [''app'']\<rparr>)"
    by simp
  have h4: "''missing.js'' \<notin> path ` set exDependencies" by code_simp
  have h5: "closuresReturn exLib exIds exDependencies exModulesMissing" by code_simp
  show ?thesis
    by (rule conjI[OF h1 conjI[OF h2 conjI[OF h3 conjI[OF h4 conjI[OF h5
          findTransitiveDeps_missing_entry[OF h1 h2 h3 h4]]]]]])
qed

subsection \<open>What the engine reads\<close>

lemma transitiveDepPaths_cong:
  "map_option inputs (map_of modules' c) = map_option inputs (map_of modules c) \<Longrightarrow>
   transitiveDepPaths lib graph pathToDep modules' c = transitiveDepPaths lib graph pathToDep modules c"
  by (cases "map_of modules' c"; cases "map_of modules c") (auto simp: transitiveDepPaths_def)

lemma findTransitiveDeps_loop_cong:
  "\<forall>c\<in>set ids. map_option inputs (map_of modules' c) = map_option inputs (map_of modules c) \<Longrightarrow>
   findTransitiveDeps_loop lib graph pathToDep modules' ids acc =
   findTransitiveDeps_loop lib graph pathToDep modules ids acc"
proof (induction ids arbitrary: acc)
  case Nil
  then show ?case by simp
next
  case (Cons c ids)
  from Cons.prems have "transitiveDepPaths lib graph pathToDep modules' c =
      transitiveDepPaths lib graph pathToDep modules c"
    by (intro transitiveDepPaths_cong) simp
  moreover from Cons have "findTransitiveDeps_loop lib graph pathToDep modules' ids acc' =
      findTransitiveDeps_loop lib graph pathToDep modules ids acc'" for acc'
    by simp
  ultimately show ?case by (simp split: sum.splits)
qed

text \<open>
  Claim C5. Two runs of the engine on the same sorted chunk ids and the same dependency list,
  with module configurations that give the sorted chunks the same inputs, return the same
  result: the same error, or the same chunks with the same file lists in the same order. The
  engine reads nothing else of its input and no state.
\<close>

theorem placement_deterministic:
  assumes "sortedChunkIds' = sortedChunkIds"
    and "dependencies' = dependencies"
    and "\<forall>c\<in>set sortedChunkIds. map_option inputs (map_of modules' c) = map_option inputs (map_of modules c)"
  shows "placement lib lca sortedChunkIds' dependencies' modules' =
         placement lib lca sortedChunkIds dependencies modules"
proof -
  have "findTransitiveDeps lib sortedChunkIds dependencies modules' =
        findTransitiveDeps lib sortedChunkIds dependencies modules"
    using findTransitiveDeps_loop_cong[OF assms(3), of lib]
    by (simp add: findTransitiveDeps_def split: sum.splits)
  with assms(1,2) show ?thesis by (simp add: placement_def)
qed

subsection \<open>The theorems on scenario A\<close>

theorem placement_deterministic_witness:
  "map_option inputs (map_of exModulesOther ''app'') = map_option inputs (map_of exModules ''app'') \<and>
   map_option inputs (map_of exModulesOther ''a'') = map_option inputs (map_of exModules ''a'') \<and>
   map_option inputs (map_of exModulesOther ''b'') = map_option inputs (map_of exModules ''b'') \<and>
   exModulesOther \<noteq> exModules \<and>
   placement exLib (getLcaNode exDag) exIds exDependencies exModulesOther = Inr exOut \<and>
   placement exLib (getLcaNode exDag) exIds exDependencies exModules = Inr exOut"
proof -
  have a: "map_option inputs (map_of exModulesOther ''app'') = map_option inputs (map_of exModules ''app'')"
    by code_simp
  have b: "map_option inputs (map_of exModulesOther ''a'') = map_option inputs (map_of exModules ''a'')"
    by code_simp
  have c: "map_option inputs (map_of exModulesOther ''b'') = map_option inputs (map_of exModules ''b'')"
    by code_simp
  have n: "exModulesOther \<noteq> exModules" by code_simp
  have h: "\<forall>c\<in>set exIds. map_option inputs (map_of exModulesOther c) = map_option inputs (map_of exModules c)"
    using a b c by (simp add: exIds_def)
  have r: "placement exLib (getLcaNode exDag) exIds exDependencies exModules = Inr exOut"
    by code_simp
  from placement_deterministic[OF refl refl h, of exLib "getLcaNode exDag" exDependencies] r
  have r': "placement exLib (getLcaNode exDag) exIds exDependencies exModulesOther = Inr exOut"
    by (rule trans)
  show ?thesis by (rule conjI[OF a conjI[OF b conjI[OF c conjI[OF n conjI[OF r' r]]]]])
qed

theorem splitDepsIntoChunks_ordering_witness:
  "closuresOrdered exLib exIds exDependencies exModules \<and>
   findTransitiveDeps exLib exIds exDependencies exModules = Inr exT \<and>
   splitDepsIntoChunks exIds exT (getLcaNode exDag) = Inr exOut \<and>
   (''app'', [''base.js'', ''app.js'', ''x.js'']) \<in> set exOut \<and>
   directDepPath exDependencies ([''base.js'', ''app.js'', ''x.js''] ! 2) ''base.js'' \<and>
   (\<exists>j<2. [''base.js'', ''app.js'', ''x.js''] ! j = ''base.js'')"
proof -
  have h1: "closuresOrdered exLib exIds exDependencies exModules" by code_simp
  have h2: "findTransitiveDeps exLib exIds exDependencies exModules = Inr exT" by code_simp
  have h3: "splitDepsIntoChunks exIds exT (getLcaNode exDag) = Inr exOut" by code_simp
  have m: "(''app'', [''base.js'', ''app.js'', ''x.js'']) \<in> set exOut" by (simp add: exOut_def)
  have d: "directDepPath exDependencies ([''base.js'', ''app.js'', ''x.js''] ! 2) ''base.js''"
    by (simp add: directDepPath_def requiresDep_def exDependencies_def exBase_def exX_def
          exAppJs_def exAJs_def exBJs_def)
  have l: "(2::nat) < length [''base.js'', ''app.js'', ''x.js'']" by simp
  have g: "''base.js'' \<in> set [''base.js'', ''app.js'', ''x.js'']" by simp
  from splitDepsIntoChunks_ordering[OF h1 h2 h3] m l g d
  have e: "\<exists>j<2. [''base.js'', ''app.js'', ''x.js''] ! j = ''base.js''" by blast
  show ?thesis by (rule conjI[OF h1 conjI[OF h2 conjI[OF h3 conjI[OF m conjI[OF d e]]]]])
qed

theorem splitDepsIntoChunks_partition_witness:
  "splitDepsIntoChunks exIds exT (getLcaNode exDag) = Inr exOut \<and>
   (''app'', [''base.js'', ''app.js'', ''x.js'']) \<in> set exOut \<and>
   (''a'', [''base.js'', ''x.js'', ''a.js'']) \<in> set exT \<and>
   (''b'', [''base.js'', ''x.js'', ''b.js'']) \<in> set exT \<and>
   distinct (map fst exOut) \<and>
   distinct [''base.js'', ''app.js'', ''x.js''] \<and>
   (\<exists>!c. \<exists>s. (c, s) \<in> set exOut \<and> ''x.js'' \<in> set s) \<and>
   ancestorOrSelf (dagNodes exDag) ''app'' ''a'' \<and>
   ancestorOrSelf (dagNodes exDag) ''app'' ''b''"
proof -
  have h: "splitDepsIntoChunks exIds exT (getLcaNode exDag) = Inr exOut" by code_simp
  have m: "(''app'', [''base.js'', ''app.js'', ''x.js'']) \<in> set exOut" by (simp add: exOut_def)
  have ta: "(''a'', [''base.js'', ''x.js'', ''a.js'']) \<in> set exT" by (simp add: exT_def)
  have tb: "(''b'', [''base.js'', ''x.js'', ''b.js'']) \<in> set exT" by (simp add: exT_def)
  have x: "''x.js'' \<in> set [''base.js'', ''app.js'', ''x.js'']" by simp
  have xa: "''x.js'' \<in> set [''base.js'', ''x.js'', ''a.js'']" by simp
  have xb: "''x.js'' \<in> set [''base.js'', ''x.js'', ''b.js'']" by simp
  note p = splitDepsIntoChunks_partition[OF h]
  note p1 = p[THEN conjunct1]
  note p2 = p[THEN conjunct2, THEN conjunct1]
  note p4 = p[THEN conjunct2, THEN conjunct2, THEN conjunct2, THEN conjunct1]
  note p5 = p[THEN conjunct2, THEN conjunct2, THEN conjunct2, THEN conjunct2]
  have ds: "distinct [''base.js'', ''app.js'', ''x.js'']"
    using bspec[OF p2 m] by (simp only: prod.case)
  have u: "''x.js'' \<in> (\<Union>(c, s)\<in>set exT. set s)"
    by (rule UN_I[OF ta]) (simp only: prod.case xa)
  have e: "\<exists>!c. \<exists>s. (c, s) \<in> set exOut \<and> ''x.js'' \<in> set s"
    by (rule bspec[OF p4 u])
  have a1: "\<forall>p\<in>set [''base.js'', ''app.js'', ''x.js'']. \<forall>(r, ps)\<in>set exT.
              p \<in> set ps \<longrightarrow> ancestorOrSelf (dagNodes exDag) ''app'' r"
    using bspec[OF p5 m] by (simp only: prod.case)
  note a2 = bspec[OF a1 x]
  have a: "ancestorOrSelf (dagNodes exDag) ''app'' ''a''"
    using bspec[OF a2 ta] xa by (simp only: prod.case simp_thms)
  have b: "ancestorOrSelf (dagNodes exDag) ''app'' ''b''"
    using bspec[OF a2 tb] xb by (simp only: prod.case simp_thms)
  show ?thesis
    by (rule conjI[OF h conjI[OF m conjI[OF ta conjI[OF tb conjI[OF p1 conjI[OF ds
          conjI[OF e conjI[OF a b]]]]]]]])
qed


text \<open>
  Two files of one chunk that require each other: the engine returns \<^verbatim>\<open>x.js\<close> before
  \<^verbatim>\<open>app.js\<close>, which \<^verbatim>\<open>x.js\<close> requires directly.
\<close>

theorem splitDepsIntoChunks_ordering_counterexample:
  "createDag exCycModules = Inr exCycDag \<and>
   getSortedIds exCycDag = [''app''] \<and>
   findTransitiveDeps exCycLib [''app''] exCycDependencies exCycModules =
     Inr [(''app'', [''x.js'', ''app.js''])] \<and>
   splitDepsIntoChunks [''app''] [(''app'', [''x.js'', ''app.js''])] (getLcaNode exCycDag) =
     Inr [(''app'', [''x.js'', ''app.js''])] \<and>
   [''x.js'', ''app.js''] ! 0 = ''x.js'' \<and>
   [''x.js'', ''app.js''] ! 1 = ''app.js'' \<and>
   directDepPath exCycDependencies ''x.js'' ''app.js'' \<and>
   \<not> closuresOrdered exCycLib [''app''] exCycDependencies exCycModules \<and>
   \<not> (\<forall>(c, s)\<in>set [(''app'', [''x.js'', ''app.js''])]. \<forall>i<length s. \<forall>g\<in>set s.
          directDepPath exCycDependencies (s ! i) g \<longrightarrow> (\<exists>j<i. s ! j = g))"
proof -
  have c: "createDag exCycModules = Inr exCycDag" by code_simp
  have i: "getSortedIds exCycDag = [''app'']" by code_simp
  have t: "findTransitiveDeps exCycLib [''app''] exCycDependencies exCycModules =
      Inr [(''app'', [''x.js'', ''app.js''])]" by code_simp
  have o: "splitDepsIntoChunks [''app''] [(''app'', [''x.js'', ''app.js''])] (getLcaNode exCycDag) =
      Inr [(''app'', [''x.js'', ''app.js''])]" by code_simp
  have n0: "[''x.js'', ''app.js''] ! 0 = ''x.js''" by simp
  have n1: "[''x.js'', ''app.js''] ! 1 = ''app.js''" by simp
  have d: "directDepPath exCycDependencies ''x.js'' ''app.js''"
    by (simp add: directDepPath_def requiresDep_def exCycDependencies_def exCycApp_def exCycX_def)
  have u: "\<not> closuresOrdered exCycLib [''app''] exCycDependencies exCycModules" by code_simp
  have v: "\<not> (\<forall>(c, s)\<in>set [(''app'', [''x.js'', ''app.js''])]. \<forall>i<length s. \<forall>g\<in>set s.
          directDepPath exCycDependencies (s ! i) g \<longrightarrow> (\<exists>j<i. s ! j = g))"
  proof
    assume a: "\<forall>(c, s)\<in>set [(''app'', [''x.js'', ''app.js''])]. \<forall>i<length s. \<forall>g\<in>set s.
          directDepPath exCycDependencies (s ! i) g \<longrightarrow> (\<exists>j<i. s ! j = g)"
    have m: "(''app'', [''x.js'', ''app.js'']) \<in> set [(''app'', [''x.js'', ''app.js''])]" by simp
    from bspec[OF a m] have "\<forall>i<length [''x.js'', ''app.js'']. \<forall>g\<in>set [''x.js'', ''app.js''].
          directDepPath exCycDependencies ([''x.js'', ''app.js''] ! i) g \<longrightarrow>
          (\<exists>j<i. [''x.js'', ''app.js''] ! j = g)"
      by (simp only: prod.case)
    then have b: "\<forall>g\<in>set [''x.js'', ''app.js''].
          directDepPath exCycDependencies ([''x.js'', ''app.js''] ! 0) g \<longrightarrow>
          (\<exists>j<0. [''x.js'', ''app.js''] ! j = g)"
      by (rule allE[of _ 0]) simp
    have g: "''app.js'' \<in> set [''x.js'', ''app.js'']" by simp
    from bspec[OF b g] d n0 show False by simp
  qed
  show ?thesis
    by (rule conjI[OF c conjI[OF i conjI[OF t conjI[OF o conjI[OF n0 conjI[OF n1 conjI[OF d
          conjI[OF u v]]]]]]]])
qed
section \<open>Properties of the compiler call\<close>

lemma compile_unfold:
  "compile env opts useNative s =
     (let os = (if (case js opts of None \<Rightarrow> False | Some files \<Rightarrow> length files > 100)
                then convertToFlagfile env opts s else (opts, s));
          result = run env useNative (fst os) (flagfiles (snd os));
          s' = (snd os)\<lparr>compilerRuns := compilerRuns (snd os) @ [(useNative, fst os)]\<rparr>
      in if truthy (stderr result)
         then (Inl (CompilerError (the (stderr result)) (exitCode result)), s')
         else (Inr (stdout result), s'))"
  by (simp add: compile_def Let_def split: prod.splits)



section \<open>Properties of the dependency caches\<close>

text \<open>
  Claim C9. When the id of the entry config is a key of the dependencies cache,
  \<^verbatim>\<open>getDependencies\<close> returns the cached array and leaves the state as it is, whatever the
  collaborators, the other keys of the entry config and \<^verbatim>\<open>ignoreDir\<close> are. The same holds for
  \<^verbatim>\<open>generateDepFileText\<close> and its own cache of texts, keyed on the same id.
\<close>

theorem dependency_caches_hit:
  assumes "ec_id entryConfig = entryId"
  shows "(dependenciesCache s entryId = Some cached \<longrightarrow>
            getDependencies env entryConfig ignoreDir s = (Inr cached, s)) \<and>
         (depFileTextCache s entryId = Some cachedText \<longrightarrow>
            generateDepFileText env entryConfig closureLibDir inputsRootDir s = (Inr cachedText, s))"
  using assms by (simp add: getDependencies_def generateDepFileText_def)

section \<open>Properties of the compile route\<close>

subsection \<open>What the steps of the compile path change\<close>

lemma getDependencies_keeps:
  assumes "getDependencies env entryConfig ignoreDir s = (r, s')"
  shows "entryIdToChunkCache s' = entryIdToChunkCache s \<and> compilerRuns s' = compilerRuns s \<and>
         flagfiles s' = flagfiles s"
  using assms
  by (auto simp: getDependencies_def Let_def split: option.splits sum.splits if_splits)

lemma allDependencies_keeps:
  assumes "allDependencies env config entryConfig s = (r, s')"
  shows "entryIdToChunkCache s' = entryIdToChunkCache s \<and> compilerRuns s' = compilerRuns s \<and>
         flagfiles s' = flagfiles s"
proof -
  obtain r1 s1 where g: "getDependencies env entryConfig (Some (Arr [closureLibraryDir config])) s = (r1, s1)"
    by (cases "getDependencies env entryConfig (Some (Arr [closureLibraryDir config])) s")
  with assms have "s' = s1"
    by (auto simp: allDependencies_def split: sum.splits)
  with getDependencies_keeps[OF g] show ?thesis by simp
qed

lemma createCompilerOptionsForChunks_keeps:
  assumes "createCompilerOptionsForChunks env entryConfig config outputToFile cmu s = (r, s')"
  shows "entryIdToChunkCache s' = entryIdToChunkCache s \<and> compilerRuns s' = compilerRuns s \<and>
         flagfiles s' = flagfiles s"
proof (cases "ec_modules entryConfig")
  case None
  with assms show ?thesis
    by (simp add: createCompilerOptionsForChunks_def assertNonNullable_def)
next
  case (Some modules)
  obtain r1 s1 where a: "allDependencies env config entryConfig s = (r1, s1)"
    by (cases "allDependencies env config entryConfig s")
  with assms Some have "s' = s1"
    by (auto simp: createCompilerOptionsForChunks_def assertNonNullable_def split: sum.splits)
  with allDependencies_keeps[OF a] show ?thesis by simp
qed

subsection \<open>The cases of the compile path\<close>

lemma compileToJson_unfold:
  assumes "js opts = None"
  shows "compileToJson env opts s =
     (let o' = opts\<lparr>json_streams := Some ''OUT''\<rparr>;
          result = run env False o' (flagfiles s);
          s' = s\<lparr>compilerRuns := compilerRuns s @ [(False, o')]\<rparr>
      in if truthy (stderr result)
         then (Inl (CompilerError (the (stderr result)) (exitCode result)), s')
         else (jsonParse env (stdout result), s'))"
  using assms by (simp add: compileToJson_def compile_unfold Let_def)

lemma convertToFlagfile_unfold:
  "convertToFlagfile env options s =
     (emptyOptions\<lparr>flagfile := Some (tempyFile env (length (flagfiles s)))\<rparr>,
      s\<lparr>flagfiles := flagfiles s @ [(tempyFile env (length (flagfiles s)), options)]\<rparr>)"
  by (simp add: convertToFlagfile_def Let_def)

lemma compileAndCache_cases:
  assumes "compileAndCache env config baseUrl entryConfig url requestId query s = (r, s')"
  obtains (options_failed) e where
      "createCompilerOptionsForChunks env entryConfig config False
         (createModuleUris env baseUrl url requestId) s = (Inl e, s')"
      "r = Inl e"
  | (rejected) options ids root s1 fname s2 result where
      "createCompilerOptionsForChunks env entryConfig config False
         (createModuleUris env baseUrl url requestId) s = (Inr (options, ids, root), s1)"
      "fname = tempyFile env (length (flagfiles s1))"
      "s2 = s1\<lparr>flagfiles := flagfiles s1 @ [(fname, options)]\<rparr>"
      "result = run env False (flagOptions fname) (flagfiles s2)"
      "truthy (stderr result)"
      "r = Inl (CompilerError (the (stderr result)) (exitCode result))"
      "s' = s2\<lparr>compilerRuns := compilerRuns s2 @ [(False, flagOptions fname)]\<rparr>"
  | (unparsed) options ids root s1 fname s2 result e where
      "createCompilerOptionsForChunks env entryConfig config False
         (createModuleUris env baseUrl url requestId) s = (Inr (options, ids, root), s1)"
      "fname = tempyFile env (length (flagfiles s1))"
      "s2 = s1\<lparr>flagfiles := flagfiles s1 @ [(fname, options)]\<rparr>"
      "result = run env False (flagOptions fname) (flagfiles s2)"
      "\<not> truthy (stderr result)"
      "jsonParse env (stdout result) = Inl e"
      "r = Inl e"
      "s' = s2\<lparr>compilerRuns := compilerRuns s2 @ [(False, flagOptions fname)]\<rparr>"
  | (stored) options ids root s1 fname s2 result outs s3 where
      "createCompilerOptionsForChunks env entryConfig config False
         (createModuleUris env baseUrl url requestId) s = (Inr (options, ids, root), s1)"
      "fname = tempyFile env (length (flagfiles s1))"
      "s2 = s1\<lparr>flagfiles := flagfiles s1 @ [(fname, options)]\<rparr>"
      "result = run env False (flagOptions fname) (flagfiles s2)"
      "\<not> truthy (stderr result)"
      "jsonParse env (stdout result) = Inr outs"
      "s3 = s2\<lparr>compilerRuns := compilerRuns s2 @ [(False, flagOptions fname)]\<rparr>"
      "s' = s3\<lparr>entryIdToChunkCache :=
               (entryIdToChunkCache s3)
                 (ec_id entryConfig \<mapsto>
                    (case entryIdToChunkCache s3 (ec_id entryConfig) of
                       None \<Rightarrow> Map.empty | Some m \<Rightarrow> m)(requestId \<mapsto> chunkIdToOutputOf ids outs))\<rparr>"
      "r = (case srcOf (getProp (chunkIdToOutputOf ids outs) (replyKey query root)) of
              Inl e \<Rightarrow> Inl e | Inr payload \<Rightarrow> Inr (Sent payload))"
proof -
  let ?cmu = "createModuleUris env baseUrl url requestId"
  obtain r1 s1 where c: "createCompilerOptionsForChunks env entryConfig config False ?cmu s = (r1, s1)"
    by (cases "createCompilerOptionsForChunks env entryConfig config False ?cmu s")
  show thesis
  proof (cases r1)
    case (Inl e)
    with c assms have "r = Inl e" "s' = s1" by (auto simp: compileAndCache_def)
    with c Inl options_failed show thesis by simp
  next
    case (Inr t)
    then obtain options ids root where t: "r1 = Inr (options, ids, root)" by (cases t) auto
    define fname where "fname = tempyFile env (length (flagfiles s1))"
    define s2 where "s2 = s1\<lparr>flagfiles := flagfiles s1 @ [(fname, options)]\<rparr>"
    define result where "result = run env False (flagOptions fname) (flagfiles s2)"
    define s3 where "s3 = s2\<lparr>compilerRuns := compilerRuns s2 @ [(False, flagOptions fname)]\<rparr>"
    have cf: "convertToFlagfile env options s1 = (emptyOptions\<lparr>flagfile := Some fname\<rparr>, s2)"
      by (simp add: convertToFlagfile_unfold fname_def s2_def)
    have fo: "emptyOptions\<lparr>flagfile := Some fname, json_streams := Some ''OUT''\<rparr> = flagOptions fname"
      by (simp add: flagOptions_def)
    have cj: "compileToJson env (emptyOptions\<lparr>flagfile := Some fname\<rparr>) s2 =
        (if truthy (stderr result)
         then (Inl (CompilerError (the (stderr result)) (exitCode result)), s3)
         else (jsonParse env (stdout result), s3))"
      by (simp add: compileToJson_unfold emptyOptions_def Let_def result_def s3_def flagOptions_def)
    show thesis
    proof (cases "truthy (stderr result)")
      case True
      with assms c t cf cj have "r = Inl (CompilerError (the (stderr result)) (exitCode result))" "s' = s3"
        by (auto simp: compileAndCache_def)
      with rejected[OF c[unfolded t] fname_def s2_def result_def True] show thesis
        by (simp add: s3_def)
    next
      case False
      show thesis
      proof (cases "jsonParse env (stdout result)")
        case (Inl e)
        with assms c t cf cj False have "r = Inl e" "s' = s3"
          by (auto simp: compileAndCache_def)
        with unparsed[OF c[unfolded t] fname_def s2_def result_def False Inl] show thesis
          by (simp add: s3_def)
      next
        case (Inr outs)
        with assms c t cf cj False have
          "s' = s3\<lparr>entryIdToChunkCache :=
               (entryIdToChunkCache s3)
                 (ec_id entryConfig \<mapsto>
                    (case entryIdToChunkCache s3 (ec_id entryConfig) of
                       None \<Rightarrow> Map.empty | Some m \<Rightarrow> m)(requestId \<mapsto> chunkIdToOutputOf ids outs))\<rparr>"
          "r = (case srcOf (getProp (chunkIdToOutputOf ids outs) (replyKey query root)) of
              Inl e \<Rightarrow> Inl e | Inr payload \<Rightarrow> Inr (Sent payload))"
          by (auto simp: compileAndCache_def Let_def split: sum.splits)
        with stored[OF c[unfolded t] fname_def s2_def result_def False Inr s3_def] show thesis
          by simp
      qed
    qed
  qed
qed

lemma ensureEntry_keeps:
  "sessionOf (ensureEntry s e) e' q = sessionOf s e' q"
  "compilerRuns (ensureEntry s e) = compilerRuns s"
  "flagfiles (ensureEntry s e) = flagfiles s"
  by (auto simp: ensureEntry_def sessionOf_def)

lemma ensureEntry_present: "sessionOf s e q = Some session \<Longrightarrow> ensureEntry s e = s"
  by (auto simp: ensureEntry_def sessionOf_def split: option.splits)

lemma ensureEntry_the:
  "the (entryIdToChunkCache (ensureEntry s e) e) q = sessionOf s e q"
  by (auto simp: ensureEntry_def sessionOf_def split: option.splits)

lemma replyChunksCompile_hit:
  assumes "truthy (q_chunk query)" "truthy (q_parentRequest query)"
    and "sessionOf s (ec_id entryConfig) (the (q_parentRequest query)) = Some session"
  shows "replyChunksCompile env config baseUrl entryConfig url requestId query s =
     (if \<not> valueTruthy (getProp session (the (q_chunk query)))
      then (Inl (JsError (''Unexpected requested chunk: '' @ the (q_chunk query))), s)
      else (case srcOf (getProp session (the (q_chunk query))) of
              Inl e \<Rightarrow> (Inl e, s)
            | Inr payload \<Rightarrow> (Inr (Returned payload), s)))"
proof -
  have e: "ensureEntry s (ec_id entryConfig) = s" by (rule ensureEntry_present[OF assms(3)])
  have t: "the (entryIdToChunkCache s (ec_id entryConfig)) (the (q_parentRequest query)) = Some session"
    using ensureEntry_the[of s "ec_id entryConfig" "the (q_parentRequest query)"] e assms(3) by simp
  show ?thesis using assms(1,2) by (simp add: replyChunksCompile_def Let_def e t)
qed

lemma replyChunksCompile_miss:
  assumes "\<not> (truthy (q_chunk query) \<and> truthy (q_parentRequest query) \<and>
              sessionOf s (ec_id entryConfig) (the (q_parentRequest query)) \<noteq> None)"
  shows "replyChunksCompile env config baseUrl entryConfig url requestId query s =
         compileAndCache env config baseUrl entryConfig url requestId query
           (ensureEntry s (ec_id entryConfig))"
  using assms by (auto simp: replyChunksCompile_def Let_def ensureEntry_the)

lemma sessionOf_store:
  "sessionOf (s\<lparr>entryIdToChunkCache :=
               (entryIdToChunkCache s)
                 (e \<mapsto> (case entryIdToChunkCache s e of None \<Rightarrow> Map.empty | Some m \<Rightarrow> m)(q \<mapsto> session))\<rparr>)
     e' q' = (if e' = e \<and> q' = q then Some session else sessionOf s e' q')"
  by (auto simp: sessionOf_def split: option.splits)

lemma sessionOf_cong:
  "entryIdToChunkCache s' = entryIdToChunkCache s \<Longrightarrow> sessionOf s' e q = sessionOf s e q"
  by (simp add: sessionOf_def)

lemma compileAndCache_effect:
  assumes "compileAndCache env config baseUrl entryConfig url requestId query s = (r, s')"
  shows "(\<forall>e q. (e, q) \<noteq> (ec_id entryConfig, requestId) \<longrightarrow> sessionOf s' e q = sessionOf s e q)"
    and "(\<exists>payload. r = Inr (Sent payload)) \<or> (\<exists>e. r = Inl e)"
    and "(\<exists>reply. r = Inr reply) \<or> sessionOf s' (ec_id entryConfig) requestId \<noteq>
            sessionOf s (ec_id entryConfig) requestId \<Longrightarrow>
         (\<exists>fname. compilerRuns s' = compilerRuns s @ [(False, flagOptions fname)] \<and>
            \<not> truthy (stderr (run env False (flagOptions fname) (flagfiles s')))) \<and>
         sessionOf s' (ec_id entryConfig) requestId \<noteq> None"
proof -
  note k = createCompilerOptionsForChunks_keeps
  show "(\<forall>e q. (e, q) \<noteq> (ec_id entryConfig, requestId) \<longrightarrow> sessionOf s' e q = sessionOf s e q)"
    using assms
  proof (cases rule: compileAndCache_cases)
    case (options_failed e)
    from k[OF options_failed(1)] show ?thesis by (simp add: sessionOf_def)
  next
    case (rejected options ids root s1 fname s2 result)
    from k[OF rejected(1)] rejected(3,7) show ?thesis by (simp add: sessionOf_def)
  next
    case (unparsed options ids root s1 fname s2 result e)
    from k[OF unparsed(1)] unparsed(3,8) show ?thesis by (simp add: sessionOf_def)
  next
    case (stored options ids root s1 fname s2 result outs s3)
    from k[OF stored(1)] stored(3,7) have "entryIdToChunkCache s3 = entryIdToChunkCache s" by simp
    then have "sessionOf s3 e q = sessionOf s e q" for e q by (rule sessionOf_cong)
    with stored(8) show ?thesis by (auto simp: sessionOf_store)
  qed
  show "(\<exists>payload. r = Inr (Sent payload)) \<or> (\<exists>e. r = Inl e)"
    using assms by (cases rule: compileAndCache_cases) (auto split: sum.splits)
  show "(\<exists>fname. compilerRuns s' = compilerRuns s @ [(False, flagOptions fname)] \<and>
            \<not> truthy (stderr (run env False (flagOptions fname) (flagfiles s')))) \<and>
         sessionOf s' (ec_id entryConfig) requestId \<noteq> None"
    if "(\<exists>reply. r = Inr reply) \<or> sessionOf s' (ec_id entryConfig) requestId \<noteq>
            sessionOf s (ec_id entryConfig) requestId"
    using assms
  proof (cases rule: compileAndCache_cases)
    case (options_failed e)
    from k[OF options_failed(1)] options_failed(2) that show ?thesis by (simp add: sessionOf_def)
  next
    case (rejected options ids root s1 fname s2 result)
    from k[OF rejected(1)] rejected(3,6,7) that show ?thesis by (simp add: sessionOf_def)
  next
    case (unparsed options ids root s1 fname s2 result e)
    from k[OF unparsed(1)] unparsed(3,7,8) that show ?thesis by (simp add: sessionOf_def)
  next
    case (stored options ids root s1 fname s2 result outs s3)
    from k[OF stored(1)] have "compilerRuns s1 = compilerRuns s" by simp
    with stored(3,7,8) have cr: "compilerRuns s' = compilerRuns s @ [(False, flagOptions fname)]"
      by simp
    from stored(3,7,8) have "flagfiles s' = flagfiles s2" by simp
    with stored(4,5) have st: "\<not> truthy (stderr (run env False (flagOptions fname) (flagfiles s')))"
      by simp
    from stored(8) have "sessionOf s' (ec_id entryConfig) requestId \<noteq> None"
      by (simp add: sessionOf_store)
    with cr st show ?thesis by blast
  qed
qed

subsection \<open>Sessions, sorted ids and the manifest\<close>

lemma mapE_Inr: "mapE f xs = Inr ys \<Longrightarrow> list_all2 (\<lambda>x y. f x = Inr y) xs ys"
  by (induction xs arbitrary: ys) (auto split: sum.splits)

lemma topoSort_distinct: "distinct acc \<Longrightarrow> distinct (topoSort k nodes acc)"
proof (induction k arbitrary: acc)
  case 0
  then show ?case by simp
next
  case (Suc k)
  show ?case
  proof (cases "find (\<lambda>n. nodeId n \<notin> set acc \<and> (\<forall>p\<in>set (nodeDeps n). p \<in> set acc)) nodes")
    case None
    with Suc.prems show ?thesis by simp
  next
    case (Some n)
    then have "nodeId n \<notin> set acc" by (auto simp: find_Some_iff)
    with Suc.prems have "distinct (acc @ [nodeId n])" by simp
    from Suc.IH[OF this] Some show ?thesis by simp
  qed
qed

lemma getSortedIds_distinct: "distinct (getSortedIds dag)"
  by (simp add: getSortedIds_def topoSort_distinct)



text \<open>The assignments of the loop that fills a dictionary object.\<close>

lemma assignProp_own:
  "Map_get (ownProps (assignProp obj key v)) c =
     (if c = key \<and> key \<noteq> ''__proto__'' then Some v else Map_get (ownProps obj) c)"
  by (auto simp: assignProp_def Map_get_def Map_set_map_of split: option.splits)

lemma assignProp_proto:
  "protoOf (assignProp obj key v) =
     (if key = ''__proto__'' then (case v of None \<Rightarrow> protoOf obj | Some p \<Rightarrow> Some p)
      else protoOf obj)"
  by (auto simp: assignProp_def split: option.splits)

lemma foldl_assign_own_other:
  "c \<notin> set ids \<or> c = ''__proto__'' \<Longrightarrow>
   Map_get (ownProps (foldl (\<lambda>obj (chunkId, index). assignProp obj chunkId (g index)) obj0
      (zip ids ns))) c = Map_get (ownProps obj0) c"
proof (induction ids arbitrary: obj0 ns)
  case Nil
  then show ?case by simp
next
  case (Cons a ids)
  show ?case
  proof (cases ns)
    case Nil
    then show ?thesis by simp
  next
    case (Cons j ns')
    from Cons.prems have c: "c \<notin> set ids \<or> c = ''__proto__''" by auto
    from Cons.prems have "Map_get (ownProps (assignProp obj0 a (g j))) c = Map_get (ownProps obj0) c"
      by (auto simp: assignProp_own)
    with Cons.IH[OF c, of "assignProp obj0 a (g j)" ns'] Cons show ?thesis by simp
  qed
qed

lemma foldl_assign_own_nth:
  "distinct ids \<Longrightarrow> length ns = length ids \<Longrightarrow> i < length ids \<Longrightarrow> ids ! i \<noteq> ''__proto__'' \<Longrightarrow>
   Map_get (ownProps (foldl (\<lambda>obj (chunkId, index). assignProp obj chunkId (g index)) obj0
      (zip ids ns))) (ids ! i) = Some (g (ns ! i))"
proof (induction ids arbitrary: obj0 ns i)
  case Nil
  then show ?case by simp
next
  case (Cons a ids)
  then obtain j ns' where ns: "ns = j # ns'" by (cases ns) auto
  let ?f = "\<lambda>obj (chunkId, index). assignProp obj chunkId (g index)"
  have step: "foldl ?f obj0 (zip (a # ids) ns) = foldl ?f (assignProp obj0 a (g j)) (zip ids ns')"
    by (simp only: ns zip_Cons_Cons foldl_Cons prod.case)
  show ?case
  proof (cases i)
    case 0
    with Cons.prems have a: "a \<notin> set ids" "a \<noteq> ''__proto__''" by simp_all
    from a(1) have "Map_get (ownProps (foldl ?f (assignProp obj0 a (g j)) (zip ids ns'))) a =
        Map_get (ownProps (assignProp obj0 a (g j))) a"
      by (intro foldl_assign_own_other) simp
    also have "\<dots> = Some (g j)" using a(2) by (simp add: assignProp_own)
    finally show ?thesis unfolding step by (simp add: 0 ns)
  next
    case (Suc i')
    with Cons.prems ns Cons.IH[of ns' i' "assignProp obj0 a (g j)"] show ?thesis
      unfolding step by simp
  qed
qed

lemma foldl_assign_proto_other:
  "''__proto__'' \<notin> set ids \<Longrightarrow>
   protoOf (foldl (\<lambda>obj (chunkId, index). assignProp obj chunkId (g index)) obj0 (zip ids ns)) =
     protoOf obj0"
proof (induction ids arbitrary: obj0 ns)
  case Nil
  then show ?case by simp
next
  case (Cons a ids)
  show ?case
  proof (cases ns)
    case Nil
    then show ?thesis by simp
  next
    case (Cons j ns')
    from Cons.prems have "protoOf (assignProp obj0 a (g j)) = protoOf obj0"
      by (auto simp: assignProp_proto)
    with Cons.IH[of "assignProp obj0 a (g j)" ns'] Cons.prems Cons show ?thesis by simp
  qed
qed

lemma foldl_assign_proto_nth:
  "distinct ids \<Longrightarrow> length ns = length ids \<Longrightarrow> i < length ids \<Longrightarrow> ids ! i = ''__proto__'' \<Longrightarrow>
   protoOf (foldl (\<lambda>obj (chunkId, index). assignProp obj chunkId (g index)) obj0 (zip ids ns)) =
     (case g (ns ! i) of None \<Rightarrow> protoOf obj0 | Some p \<Rightarrow> Some p)"
proof (induction ids arbitrary: obj0 ns i)
  case Nil
  then show ?case by simp
next
  case (Cons a ids)
  then obtain j ns' where ns: "ns = j # ns'" by (cases ns) auto
  let ?f = "\<lambda>obj (chunkId, index). assignProp obj chunkId (g index)"
  have step: "foldl ?f obj0 (zip (a # ids) ns) = foldl ?f (assignProp obj0 a (g j)) (zip ids ns')"
    by (simp only: ns zip_Cons_Cons foldl_Cons prod.case)
  show ?case
  proof (cases i)
    case 0
    with Cons.prems have a: "a \<notin> set ids" "a = ''__proto__''" by simp_all
    from a have "protoOf (foldl ?f (assignProp obj0 a (g j)) (zip ids ns')) =
        protoOf (assignProp obj0 a (g j))"
      by (intro foldl_assign_proto_other) simp
    also have "\<dots> = (case g j of None \<Rightarrow> protoOf obj0 | Some p \<Rightarrow> Some p)"
      using a(2) by (simp add: assignProp_proto)
    finally show ?thesis unfolding step by (simp add: 0 ns)
  next
    case (Suc i')
    with Cons.prems have i': "i' < length ids" "ids ! i' = ''__proto__''" and a: "a \<notin> set ids"
      by simp_all
    from nth_mem[OF i'(1)] i'(2) have "''__proto__'' \<in> set ids" by simp
    with a have "a \<noteq> ''__proto__''" by blast
    then have "protoOf (assignProp obj0 a (g j)) = protoOf obj0" by (simp add: assignProp_proto)
    with Suc Cons.prems ns Cons.IH[of ns' i' "assignProp obj0 a (g j)"] show ?thesis
      unfolding step by (simp split: option.splits)
  qed
qed

lemma assignProp_distinct:
  "distinct (map fst (ownProps obj)) \<Longrightarrow> distinct (map fst (ownProps (assignProp obj key v)))"
  by (auto simp: assignProp_def Map_set_keys split: option.splits)

lemma entries_map_of:
  "distinct (map fst ps) \<Longrightarrow>
   map_of (concat (map (\<lambda>(key, v). case v of None \<Rightarrow> [] | Some x \<Rightarrow> [(key, x)]) ps)) c =
     (case map_of ps c of Some (Some x) \<Rightarrow> Some x | _ \<Rightarrow> None)"
proof (induction ps)
  case Nil
  then show ?case by simp
next
  case (Cons p ps)
  obtain k v where p: "p = (k, v)" by (cases p)
  from Cons.prems p have n: "map_of ps k = None" by (auto simp: map_of_eq_None_iff)
  from Cons.prems have "distinct (map fst ps)" by simp
  note ih = Cons.IH[OF this]
  show ?case
  proof (cases "c = k")
    case True
    with ih n p show ?thesis by (cases v) simp_all
  next
    case False
    with ih p show ?thesis by (cases v) simp_all
  qed
qed

lemma ownEntries_map_of:
  "distinct (map fst (ownProps obj)) \<Longrightarrow>
   map_of (ownEntries obj) c =
     (case Map_get (ownProps obj) c of Some (Some x) \<Rightarrow> Some x | _ \<Rightarrow> None)"
  by (simp add: ownEntries_def entries_map_of Map_get_def)

text \<open>The session that \<^verbatim>\<open>replyChunksCompile\<close> builds from the sorted ids and the outputs.\<close>

lemma chunkIdToOutputOf_own_other:
  assumes "c \<notin> set ids \<or> c = ''__proto__''"
  shows "Map_get (ownProps (chunkIdToOutputOf ids outs)) c = None"
  unfolding chunkIdToOutputOf_def foldl_assign_own_other[OF assms]
  by (simp add: emptyObject_def Map_get_def)

lemma chunkIdToOutputOf_own_nth:
  "distinct ids \<Longrightarrow> i < length ids \<Longrightarrow> ids ! i \<noteq> ''__proto__'' \<Longrightarrow>
   Map_get (ownProps (chunkIdToOutputOf ids outs)) (ids ! i) = Some (nthOpt outs i)"
  by (simp add: chunkIdToOutputOf_def foldl_assign_own_nth)

lemma chunkIdToOutputOf_proto_other:
  "''__proto__'' \<notin> set ids \<Longrightarrow> protoOf (chunkIdToOutputOf ids outs) = None"
  by (simp add: chunkIdToOutputOf_def foldl_assign_proto_other emptyObject_def)

lemma chunkIdToOutputOf_proto_nth:
  "distinct ids \<Longrightarrow> i < length ids \<Longrightarrow> ids ! i = ''__proto__'' \<Longrightarrow>
   protoOf (chunkIdToOutputOf ids outs) = nthOpt outs i"
  by (simp add: chunkIdToOutputOf_def foldl_assign_proto_nth emptyObject_def split: option.splits)

lemma chunkIdToOutputOf_own_keys:
  assumes "distinct ids"
  shows "{c. Map_get (ownProps (chunkIdToOutputOf ids outs)) c \<noteq> None} = set ids - {''__proto__''}"
proof (intro set_eqI iffI)
  fix c
  assume c: "c \<in> {c. Map_get (ownProps (chunkIdToOutputOf ids outs)) c \<noteq> None}"
  have "\<not> (c \<notin> set ids \<or> c = ''__proto__'')"
  proof
    assume "c \<notin> set ids \<or> c = ''__proto__''"
    from chunkIdToOutputOf_own_other[OF this, of outs] c show False by simp
  qed
  then show "c \<in> set ids - {''__proto__''}" by simp
next
  fix c
  assume "c \<in> set ids - {''__proto__''}"
  then obtain i where "i < length ids" "ids ! i = c" "c \<noteq> ''__proto__''"
    by (auto simp: in_set_conv_nth)
  with chunkIdToOutputOf_own_nth[OF assms, of i outs]
  show "c \<in> {c. Map_get (ownProps (chunkIdToOutputOf ids outs)) c \<noteq> None}" by auto
qed

text \<open>Reading the session at the chunk id of a position gives the output of that position,
  when the compiler returned one; no other read gives an output.\<close>

lemma getProp_session_nth:
  assumes "distinct ids" "i < length ids" "i < length outs"
  shows "getProp (chunkIdToOutputOf ids outs) (ids ! i) = Output (outs ! i)"
proof (cases "ids ! i = ''__proto__''")
  case True
  from chunkIdToOutputOf_proto_nth[OF assms(1,2) True, of outs] assms(3)
  have "protoOf (chunkIdToOutputOf ids outs) = Some (outs ! i)" by (simp add: nthOpt_def)
  moreover have "Map_get (ownProps (chunkIdToOutputOf ids outs)) (ids ! i) = None"
    using True by (intro chunkIdToOutputOf_own_other) simp
  ultimately show ?thesis using True by (simp add: getProp_def)
next
  case False
  from chunkIdToOutputOf_own_nth[OF assms(1,2) False, of outs] assms(3)
  show ?thesis by (simp add: getProp_def nthOpt_def)
qed

lemma getProp_session_Output:
  assumes "distinct ids" "getProp (chunkIdToOutputOf ids outs) key = Output out"
  shows "\<exists>i. i < length ids \<and> i < length outs \<and> ids ! i = key \<and> out = outs ! i"
proof (cases "Map_get (ownProps (chunkIdToOutputOf ids outs)) key")
  case None
  with assms(2) have k: "key = ''__proto__''" and p: "protoOf (chunkIdToOutputOf ids outs) = Some out"
    by (auto simp: getProp_def split: option.splits if_splits)
  from p chunkIdToOutputOf_proto_other[of ids outs] have "''__proto__'' \<in> set ids" by auto
  then obtain i where i: "i < length ids" "ids ! i = ''__proto__''" by (auto simp: in_set_conv_nth)
  from chunkIdToOutputOf_proto_nth[OF assms(1) i, of outs] p have "nthOpt outs i = Some out" by simp
  with i k show ?thesis by (auto simp: nthOpt_def split: if_splits)
next
  case (Some v)
  with assms(2) have v: "v = Some out" by (auto simp: getProp_def split: option.splits)
  have "\<not> (key \<notin> set ids \<or> key = ''__proto__'')"
  proof
    assume "key \<notin> set ids \<or> key = ''__proto__''"
    from chunkIdToOutputOf_own_other[OF this, of outs] Some show False by simp
  qed
  then have "key \<in> set ids" "key \<noteq> ''__proto__''" by simp_all
  then obtain i where i: "i < length ids" "ids ! i = key" by (auto simp: in_set_conv_nth)
  with chunkIdToOutputOf_own_nth[OF assms(1) i(1), of outs] \<open>key \<noteq> ''__proto__''\<close> Some v
  have "nthOpt outs i = Some out" by simp
  with i show ?thesis by (auto simp: nthOpt_def split: if_splits)
qed

lemma srcOf_cases:
  "srcOf v = Inr payload \<Longrightarrow> (\<exists>out. v = Output out \<and> payload = Some (src out)) \<or>
     ((\<forall>out. v \<noteq> Output out) \<and> payload = None)"
  by (cases v) (auto simp: srcOf_def)

text \<open>What is sent for a key: the source of the output at the position of the key, and
  \<^verbatim>\<open>undefined\<close> when the key is at no position that has an output.\<close>

lemma payload_of_session:
  assumes "distinct ids" "srcOf (getProp (chunkIdToOutputOf ids outs) key) = Inr payload"
  shows "(\<forall>i. i < length ids \<and> i < length outs \<and> ids ! i = key \<longrightarrow> payload = Some (src (outs ! i))) \<and>
         ((\<forall>i. i < length ids \<and> i < length outs \<longrightarrow> ids ! i \<noteq> key) \<longrightarrow> payload = None)"
proof (intro conjI allI impI)
  fix i
  assume "i < length ids \<and> i < length outs \<and> ids ! i = key"
  with getProp_session_nth[OF assms(1), of i outs] have "getProp (chunkIdToOutputOf ids outs) key = Output (outs ! i)"
    by auto
  with assms(2) show "payload = Some (src (outs ! i))" by (simp add: srcOf_def)
next
  assume n: "\<forall>i. i < length ids \<and> i < length outs \<longrightarrow> ids ! i \<noteq> key"
  from srcOf_cases[OF assms(2)] show "payload = None"
  proof
    assume "\<exists>out. getProp (chunkIdToOutputOf ids outs) key = Output out \<and> payload = Some (src out)"
    then obtain out where "getProp (chunkIdToOutputOf ids outs) key = Output out" by blast
    from getProp_session_Output[OF assms(1) this] n show ?thesis by blast
  next
    assume "(\<forall>out. getProp (chunkIdToOutputOf ids outs) key \<noteq> Output out) \<and> payload = None"
    then show ?thesis by simp
  qed
qed

lemma map_of_filter_other:
  "k' \<noteq> k \<Longrightarrow> map_of (filter (\<lambda>(a, b). a \<noteq> k) ps) k' = map_of ps k'"
  by (induction ps) auto

lemma params_set_same: "map_of (params_set ps k v) k = Some v"
  by (induction ps k v rule: params_set.induct) auto

lemma params_set_other: "k' \<noteq> k \<Longrightarrow> map_of (params_set ps k v) k' = map_of ps k'"
  by (induction ps k v rule: params_set.induct) (auto simp: map_of_filter_other)

lemma createModuleUris_Inr:
  assumes "createModuleUris env baseUrl url requestId chunkId = Inr uris"
  shows "\<exists>u. uris = [urlToString env u] \<and> map_of (searchParams u) ''chunk'' = Some chunkId \<and>
             map_of (searchParams u) ''parentRequest'' = Some requestId"
proof -
  from assms obtain uri where u: "newURL env url baseUrl = Inr uri"
    and r: "uris = [urlToString env (uri\<lparr>searchParams :=
                params_set (params_set (searchParams uri) ''chunk'' chunkId) ''parentRequest'' requestId\<rparr>)]"
    by (auto simp: createModuleUris_def Let_def split: sum.splits)
  have "map_of (params_set (params_set (searchParams uri) ''chunk'' chunkId) ''parentRequest'' requestId)
          ''chunk'' = Some chunkId"
    by (simp add: params_set_other params_set_same)
  with r show ?thesis by (auto simp: params_set_same)
qed

text \<open>The manifest after the loop: every chunk but \<^verbatim>\<open>__proto__\<close> has the entry that
  \<^verbatim>\<open>createModuleUris\<close> gives for its id, and there is no other entry.\<close>

lemma convertModuleInfos_loop_uris:
  assumes "convertModuleInfos_loop modules cmu moduleInfo0 moduleUris0 = Inr (moduleInfo, moduleUris)"
  shows "(\<forall>c\<in>fst ` set modules. c \<noteq> ''__proto__'' \<longrightarrow>
            (\<exists>uris. cmu c = Inr uris \<and> Map_get (ownProps moduleUris) c = Some (Some uris))) \<and>
         (\<forall>c. c \<notin> fst ` set modules \<or> c = ''__proto__'' \<longrightarrow>
            Map_get (ownProps moduleUris) c = Map_get (ownProps moduleUris0) c)"
  using assms
proof (induction modules arbitrary: moduleInfo0 moduleUris0)
  case Nil
  then show ?case by simp
next
  case (Cons cm rest)
  obtain chunkId m where cm: "cm = (chunkId, m)" by (cases cm)
  from Cons.prems cm obtain uris where u: "cmu chunkId = Inr uris"
    and r: "convertModuleInfos_loop rest cmu (assignProp moduleInfo0 chunkId (Some (deps m)))
              (assignProp moduleUris0 chunkId (Some uris)) = Inr (moduleInfo, moduleUris)"
    by (auto split: sum.splits)
  note ih = Cons.IH[OF r]
  show ?case
  proof (intro conjI ballI allI impI)
    fix c
    assume c: "c \<in> fst ` set (cm # rest)" "c \<noteq> ''__proto__''"
    show "\<exists>uris. cmu c = Inr uris \<and> Map_get (ownProps moduleUris) c = Some (Some uris)"
    proof (cases "c \<in> fst ` set rest")
      case True
      with ih c(2) show ?thesis by blast
    next
      case False
      with c cm have e: "c = chunkId" by auto
      from False ih have "Map_get (ownProps moduleUris) c =
          Map_get (ownProps (assignProp moduleUris0 chunkId (Some uris))) c" by blast
      with e c(2) u show ?thesis by (simp add: assignProp_own)
    qed
  next
    fix c
    assume c: "c \<notin> fst ` set (cm # rest) \<or> c = ''__proto__''"
    then have "c \<notin> fst ` set rest \<or> c = ''__proto__''" by auto
    with ih have "Map_get (ownProps moduleUris) c =
        Map_get (ownProps (assignProp moduleUris0 chunkId (Some uris))) c" by blast
    also from c cm have "\<dots> = Map_get (ownProps moduleUris0) c" by (auto simp: assignProp_own)
    finally show "Map_get (ownProps moduleUris) c = Map_get (ownProps moduleUris0) c" .
  qed
qed

lemma convertModuleInfos_loop_distinct:
  assumes "convertModuleInfos_loop modules cmu moduleInfo0 moduleUris0 = Inr (moduleInfo, moduleUris)"
    and "distinct (map fst (ownProps moduleUris0))"
  shows "distinct (map fst (ownProps moduleUris))"
  using assms
proof (induction modules arbitrary: moduleInfo0 moduleUris0)
  case Nil
  then show ?case by simp
next
  case (Cons cm rest)
  obtain chunkId m where cm: "cm = (chunkId, m)" by (cases cm)
  from Cons.prems(1) cm obtain uris where
    r: "convertModuleInfos_loop rest cmu (assignProp moduleInfo0 chunkId (Some (deps m)))
              (assignProp moduleUris0 chunkId (Some uris)) = Inr (moduleInfo, moduleUris)"
    by (auto split: sum.splits)
  from Cons.IH[OF r assignProp_distinct[OF Cons.prems(2)]] show ?case .
qed

text \<open>
  The manifest of a request: in what is serialised of \<^verbatim>\<open>moduleUris\<close>, every declared chunk but
  \<^verbatim>\<open>__proto__\<close> has one URI, which carries the chunk id and the request id, and nothing else
  has an entry.
\<close>

lemma convertModuleInfos_Inr:
  assumes "convertModuleInfos entryConfig (createModuleUris env baseUrl url requestId) =
             Inr (moduleInfo, moduleUris)"
  shows "\<exists>modules. ec_modules entryConfig = Some modules \<and>
           (\<forall>c\<in>fst ` set modules. c \<noteq> ''__proto__'' \<longrightarrow>
              (\<exists>u. map_of (ownEntries moduleUris) c = Some [urlToString env u] \<and>
                   map_of (searchParams u) ''chunk'' = Some c \<and>
                   map_of (searchParams u) ''parentRequest'' = Some requestId)) \<and>
           (\<forall>c. c \<notin> fst ` set modules \<or> c = ''__proto__'' \<longrightarrow>
              map_of (ownEntries moduleUris) c = None)"
proof -
  let ?cmu = "createModuleUris env baseUrl url requestId"
  from assms obtain modules where m: "ec_modules entryConfig = Some modules"
    and l: "convertModuleInfos_loop modules ?cmu emptyObject emptyObject = Inr (moduleInfo, moduleUris)"
    by (auto simp: convertModuleInfos_def assertNonNullable_def split: option.splits)
  note f = convertModuleInfos_loop_uris[OF l]
  have "distinct (map fst (ownProps moduleUris))"
    by (rule convertModuleInfos_loop_distinct[OF l]) (simp add: emptyObject_def)
  note e = ownEntries_map_of[OF this]
  have a: "\<forall>c\<in>fst ` set modules. c \<noteq> ''__proto__'' \<longrightarrow>
              (\<exists>u. map_of (ownEntries moduleUris) c = Some [urlToString env u] \<and>
                   map_of (searchParams u) ''chunk'' = Some c \<and>
                   map_of (searchParams u) ''parentRequest'' = Some requestId)"
  proof (intro ballI impI)
    fix c
    assume "c \<in> fst ` set modules" "c \<noteq> ''__proto__''"
    with f obtain uris where u: "?cmu c = Inr uris" "Map_get (ownProps moduleUris) c = Some (Some uris)"
      by blast
    from u(2) have "map_of (ownEntries moduleUris) c = Some uris" by (simp add: e)
    with createModuleUris_Inr[OF u(1)]
    show "\<exists>u. map_of (ownEntries moduleUris) c = Some [urlToString env u] \<and>
                   map_of (searchParams u) ''chunk'' = Some c \<and>
                   map_of (searchParams u) ''parentRequest'' = Some requestId"
      by auto
  qed
  have b: "\<forall>c. c \<notin> fst ` set modules \<or> c = ''__proto__'' \<longrightarrow> map_of (ownEntries moduleUris) c = None"
  proof (intro allI impI)
    fix c
    assume "c \<notin> fst ` set modules \<or> c = ''__proto__''"
    with f have "Map_get (ownProps moduleUris) c = Map_get (ownProps emptyObject) c" by blast
    then show "map_of (ownEntries moduleUris) c = None"
      by (simp add: e emptyObject_def Map_get_def)
  qed
  from m a b show ?thesis by blast
qed

subsection \<open>The options of a run\<close>

lemma chunkOptions_Inr:
  assumes "chunkOptions env entryConfig modules dependencies outputToFile cmu = Inr (options, ids, root)"
  shows "\<exists>dag pl base chunks level wrappers.
           createDag modules = Inr dag \<and> ids = getSortedIds dag \<and>
           placement (depGraphLib env) (getLcaNode dag) ids dependencies modules = Inr pl \<and>
           createBaseOptions entryConfig outputToFile = Inr base \<and>
           mapE (chunkFlag modules pl) ids = Inr chunks \<and>
           compilation_level base = Some level \<and>
           createChunkWrapper env entryConfig ids level cmu = Inr wrappers \<and>
           options = base\<lparr>js := Some (concat (Map_values pl)), chunk := Some chunks,
                         chunk_wrapper := Some wrappers\<rparr> \<and>
           root = (case ids of [] \<Rightarrow> None | c # cs \<Rightarrow> Some c)"
proof -
  from assms obtain dag where dag: "createDag modules = Inr dag"
    by (auto simp: chunkOptions_def split: sum.splits)
  let ?ids = "getSortedIds dag"
  from assms dag obtain pl where pl:
    "placement (depGraphLib env) (getLcaNode dag) ?ids dependencies modules = Inr pl"
    by (auto simp: chunkOptions_def Let_def split: sum.splits)
  from assms dag pl obtain base where base: "createBaseOptions entryConfig outputToFile = Inr base"
    by (auto simp: chunkOptions_def Let_def split: sum.splits)
  from assms dag pl base obtain chunks where chunks: "mapE (chunkFlag modules pl) ?ids = Inr chunks"
    by (auto simp: chunkOptions_def Let_def split: sum.splits)
  let ?o = "base\<lparr>js := Some (concat (Map_values pl)), chunk := Some chunks\<rparr>"
  have rest: "chunkOptions env entryConfig modules dependencies outputToFile cmu =
      (case assertNonNullable (compilation_level ?o) (AssertionError ''Expected non-nullable value'') of
         Inl e \<Rightarrow> Inl e
       | Inr level \<Rightarrow>
           (case createChunkWrapper env entryConfig ?ids level cmu of
              Inl e \<Rightarrow> Inl e
            | Inr wrappers \<Rightarrow>
                Inr (?o\<lparr>chunk_wrapper := Some wrappers\<rparr>, ?ids,
                     (case ?ids of [] \<Rightarrow> None | c # cs \<Rightarrow> Some c))))"
    by (simp add: chunkOptions_def Let_def dag pl base chunks)
  from assms rest obtain level where level: "compilation_level base = Some level"
    by (cases "compilation_level base") (auto simp: assertNonNullable_def)
  from assms rest level obtain wrappers where
    w: "createChunkWrapper env entryConfig ?ids level cmu = Inr wrappers"
    by (auto simp: assertNonNullable_def split: sum.splits)
  from assms rest level w have "options = ?o\<lparr>chunk_wrapper := Some wrappers\<rparr>" "ids = ?ids"
    "root = (case ?ids of [] \<Rightarrow> None | c # cs \<Rightarrow> Some c)"
    by (auto simp: assertNonNullable_def)
  with dag pl base chunks level w show ?thesis by auto
qed

lemma createCompilerOptionsForChunks_Inr:
  assumes "createCompilerOptionsForChunks env entryConfig config outputToFile cmu s =
             (Inr (options, ids, root), s1)"
  shows "\<exists>modules dependencies. ec_modules entryConfig = Some modules \<and>
           chunkOptions env entryConfig modules dependencies outputToFile cmu = Inr (options, ids, root)"
proof (cases "ec_modules entryConfig")
  case None
  with assms show ?thesis by (simp add: createCompilerOptionsForChunks_def assertNonNullable_def)
next
  case (Some modules)
  obtain r1 s' where a: "allDependencies env config entryConfig s = (r1, s')"
    by (cases "allDependencies env config entryConfig s")
  with assms Some show ?thesis
    by (cases r1) (auto simp: createCompilerOptionsForChunks_def assertNonNullable_def)
qed

lemma options_of_run:
  assumes "createCompilerOptionsForChunks env entryConfig config outputToFile
             (createModuleUris env baseUrl url requestId) s = (Inr (options, ids, root), s1)"
  obtains modules dependencies dag chunkToInputPathSet moduleInfo moduleUris level where
    "ec_modules entryConfig = Some modules"
    "createDag modules = Inr dag"
    "ids = getSortedIds dag"
    "placement (depGraphLib env) (getLcaNode dag) ids dependencies modules = Inr chunkToInputPathSet"
    "js options = Some (concat (Map_values chunkToInputPathSet))"
    "map_option length (chunk options) = Some (length ids)"
    "root = (case ids of [] \<Rightarrow> None | c # cs \<Rightarrow> Some c)"
    "convertModuleInfos entryConfig (createModuleUris env baseUrl url requestId) =
       Inr (moduleInfo, moduleUris)"
    "compilation_level options = Some level"
    "chunk_wrapper options =
       Some (map (chunkWrapperOf env entryConfig level moduleInfo moduleUris)
               (zip ids [0..<length ids]))"
    "\<forall>c\<in>fst ` set modules. c \<noteq> ''__proto__'' \<longrightarrow>
       (\<exists>u. map_of (ownEntries moduleUris) c = Some [urlToString env u] \<and>
            map_of (searchParams u) ''chunk'' = Some c \<and>
            map_of (searchParams u) ''parentRequest'' = Some requestId)"
    "\<forall>c. c \<notin> fst ` set modules \<or> c = ''__proto__'' \<longrightarrow> map_of (ownEntries moduleUris) c = None"
proof -
  let ?cmu = "createModuleUris env baseUrl url requestId"
  from createCompilerOptionsForChunks_Inr[OF assms] obtain modules dependencies where
    em: "ec_modules entryConfig = Some modules" and
    co: "chunkOptions env entryConfig modules dependencies outputToFile ?cmu = Inr (options, ids, root)"
    by blast
  from chunkOptions_Inr[OF co] obtain dag pl base chunks level wrappers where
    f: "ids = getSortedIds dag" "mapE (chunkFlag modules pl) ids = Inr chunks"
       "compilation_level base = Some level"
       "createChunkWrapper env entryConfig ids level ?cmu = Inr wrappers"
       "options = base\<lparr>js := Some (concat (Map_values pl)), chunk := Some chunks,
                         chunk_wrapper := Some wrappers\<rparr>"
       "root = (case ids of [] \<Rightarrow> None | c # cs \<Rightarrow> Some c)"
    and g: "createDag modules = Inr dag"
       "placement (depGraphLib env) (getLcaNode dag) ids dependencies modules = Inr pl"
    by blast
  from f(5) have j: "js options = Some (concat (Map_values pl))" by simp
  from mapE_Inr[OF f(2)] have "length chunks = length ids" by (simp add: list_all2_lengthD)
  then have n: "map_option length (chunk options) = Some (length ids)" by (simp add: f(5))
  from f(4) obtain moduleInfo moduleUris where
    cm: "convertModuleInfos entryConfig ?cmu = Inr (moduleInfo, moduleUris)"
    and w: "wrappers = map (chunkWrapperOf env entryConfig level moduleInfo moduleUris)
                         (zip ids [0..<length ids])"
    by (auto simp: createChunkWrapper_def split: sum.splits)
  from f(3,5) have l: "compilation_level options = Some level" by simp
  from f(5) w have cw: "chunk_wrapper options =
       Some (map (chunkWrapperOf env entryConfig level moduleInfo moduleUris)
               (zip ids [0..<length ids]))" by simp
  from convertModuleInfos_Inr[OF cm] em have
    u1: "\<forall>c\<in>fst ` set modules. c \<noteq> ''__proto__'' \<longrightarrow>
       (\<exists>u. map_of (ownEntries moduleUris) c = Some [urlToString env u] \<and>
            map_of (searchParams u) ''chunk'' = Some c \<and>
            map_of (searchParams u) ''parentRequest'' = Some requestId)"
    and u2: "\<forall>c. c \<notin> fst ` set modules \<or> c = ''__proto__'' \<longrightarrow>
       map_of (ownEntries moduleUris) c = None"
    by auto
  from that[OF em g(1) f(1) g(2) j n f(6) cm l cw u1 u2] show thesis .
qed

lemma compileAndCache_stored:
  assumes "compileAndCache env config baseUrl entryConfig url requestId query s = (r, s')"
    and "(\<exists>reply. r = Inr reply) \<or>
         sessionOf s' (ec_id entryConfig) requestId \<noteq> sessionOf s (ec_id entryConfig) requestId"
  obtains options ids root s1 fname outs where
    "createCompilerOptionsForChunks env entryConfig config False
       (createModuleUris env baseUrl url requestId) s = (Inr (options, ids, root), s1)"
    "compilerRuns s' = compilerRuns s @ [(False, flagOptions fname)]"
    "flagfiles s' = flagfiles s @ [(fname, options)]"
    "\<not> truthy (stderr (run env False (flagOptions fname) (flagfiles s')))"
    "jsonParse env (stdout (run env False (flagOptions fname) (flagfiles s'))) = Inr outs"
    "sessionOf s' (ec_id entryConfig) requestId = Some (chunkIdToOutputOf ids outs)"
    "r = (case srcOf (getProp (chunkIdToOutputOf ids outs) (replyKey query root)) of
            Inl e \<Rightarrow> Inl e | Inr payload \<Rightarrow> Inr (Sent payload))"
  using assms(1)
proof (cases rule: compileAndCache_cases)
  case (options_failed e)
  from createCompilerOptionsForChunks_keeps[OF options_failed(1)] options_failed(2) assms(2)
  show ?thesis by (simp add: sessionOf_def)
next
  case (rejected options ids root s1 fname s2 result)
  from createCompilerOptionsForChunks_keeps[OF rejected(1)] rejected(3,6,7) assms(2)
  show ?thesis by (simp add: sessionOf_def)
next
  case (unparsed options ids root s1 fname s2 result e)
  from createCompilerOptionsForChunks_keeps[OF unparsed(1)] unparsed(3,7,8) assms(2)
  show ?thesis by (simp add: sessionOf_def)
next
  case (stored options ids root s1 fname s2 result outs s3)
  note k = createCompilerOptionsForChunks_keeps[OF stored(1)]
  from k stored(3,7,8) have cr: "compilerRuns s' = compilerRuns s @ [(False, flagOptions fname)]"
    by simp
  from k stored(3,7,8) have ff: "flagfiles s' = flagfiles s @ [(fname, options)]" by simp
  from stored(3,7,8) have "flagfiles s' = flagfiles s2" by simp
  with stored(4,5,6) have
    st: "\<not> truthy (stderr (run env False (flagOptions fname) (flagfiles s')))"
    and jp: "jsonParse env (stdout (run env False (flagOptions fname) (flagfiles s'))) = Inr outs"
    by simp_all
  from stored(8) have se: "sessionOf s' (ec_id entryConfig) requestId = Some (chunkIdToOutputOf ids outs)"
    by (simp add: sessionOf_store)
  from that[OF stored(1) cr ff st jp se stored(9)] show ?thesis .
qed

subsection \<open>A run of the compile path\<close>

text \<open>
  What is known of a run of the handler on the compile path that replied or changed the
  session under its request id.
\<close>

lemma compile_path_run:
  assumes "compileAndCache env config baseUrl entryConfig url requestId query
             (ensureEntry s (ec_id entryConfig)) = (r, s')"
    and "(\<exists>reply. r = Inr reply) \<or>
         sessionOf s' (ec_id entryConfig) requestId \<noteq> sessionOf s (ec_id entryConfig) requestId"
  obtains modules dependencies dag chunkToInputPathSet options fname chunkOutputs
      moduleInfo moduleUris level where
    "ec_modules entryConfig = Some modules"
    "createDag modules = Inr dag"
    "placement (depGraphLib env) (getLcaNode dag) (getSortedIds dag) dependencies modules =
       Inr chunkToInputPathSet"
    "js options = Some (concat (Map_values chunkToInputPathSet))"
    "map_option length (chunk options) = Some (length (getSortedIds dag))"
    "compilerRuns s' = compilerRuns s @ [(False, flagOptions fname)]"
    "flagfiles s' = flagfiles s @ [(fname, options)]"
    "\<not> truthy (stderr (run env False (flagOptions fname) (flagfiles s')))"
    "jsonParse env (stdout (run env False (flagOptions fname) (flagfiles s'))) = Inr chunkOutputs"
    "sessionOf s' (ec_id entryConfig) requestId =
       Some (chunkIdToOutputOf (getSortedIds dag) chunkOutputs)"
    "r = (case srcOf (getProp (chunkIdToOutputOf (getSortedIds dag) chunkOutputs)
                   (replyKey query (case getSortedIds dag of [] \<Rightarrow> None | c # cs \<Rightarrow> Some c))) of
            Inl e \<Rightarrow> Inl e | Inr payload \<Rightarrow> Inr (Sent payload))"
    "convertModuleInfos entryConfig (createModuleUris env baseUrl url requestId) =
       Inr (moduleInfo, moduleUris)"
    "compilation_level options = Some level"
    "chunk_wrapper options =
       Some (map (chunkWrapperOf env entryConfig level moduleInfo moduleUris)
               (zip (getSortedIds dag) [0..<length (getSortedIds dag)]))"
    "\<forall>c\<in>fst ` set modules. c \<noteq> ''__proto__'' \<longrightarrow>
       (\<exists>u. map_of (ownEntries moduleUris) c = Some [urlToString env u] \<and>
            map_of (searchParams u) ''chunk'' = Some c \<and>
            map_of (searchParams u) ''parentRequest'' = Some requestId)"
    "\<forall>c. c \<notin> fst ` set modules \<or> c = ''__proto__'' \<longrightarrow> map_of (ownEntries moduleUris) c = None"
proof -
  let ?s0 = "ensureEntry s (ec_id entryConfig)"
  from assms(2) have a2: "(\<exists>reply. r = Inr reply) \<or>
      sessionOf s' (ec_id entryConfig) requestId \<noteq> sessionOf ?s0 (ec_id entryConfig) requestId"
    by (simp add: ensureEntry_keeps)
  from assms(1) a2 obtain options ids root s1 fname outs where
    co: "createCompilerOptionsForChunks env entryConfig config False
           (createModuleUris env baseUrl url requestId) ?s0 = (Inr (options, ids, root), s1)"
    and cr: "compilerRuns s' = compilerRuns ?s0 @ [(False, flagOptions fname)]"
    and ff: "flagfiles s' = flagfiles ?s0 @ [(fname, options)]"
    and st: "\<not> truthy (stderr (run env False (flagOptions fname) (flagfiles s')))"
    and jp: "jsonParse env (stdout (run env False (flagOptions fname) (flagfiles s'))) = Inr outs"
    and se: "sessionOf s' (ec_id entryConfig) requestId = Some (chunkIdToOutputOf ids outs)"
    and r: "r = (case srcOf (getProp (chunkIdToOutputOf ids outs) (replyKey query root)) of
            Inl e \<Rightarrow> Inl e | Inr payload \<Rightarrow> Inr (Sent payload))"
    by (rule compileAndCache_stored)
  from co obtain modules dependencies dag pl moduleInfo moduleUris level where
    o: "ec_modules entryConfig = Some modules"
       "createDag modules = Inr dag"
       "ids = getSortedIds dag"
       "placement (depGraphLib env) (getLcaNode dag) ids dependencies modules = Inr pl"
       "js options = Some (concat (Map_values pl))"
       "map_option length (chunk options) = Some (length ids)"
       "root = (case ids of [] \<Rightarrow> None | c # cs \<Rightarrow> Some c)"
       "convertModuleInfos entryConfig (createModuleUris env baseUrl url requestId) =
          Inr (moduleInfo, moduleUris)"
       "compilation_level options = Some level"
       "chunk_wrapper options =
          Some (map (chunkWrapperOf env entryConfig level moduleInfo moduleUris)
                  (zip ids [0..<length ids]))"
       "\<forall>c\<in>fst ` set modules. c \<noteq> ''__proto__'' \<longrightarrow>
          (\<exists>u. map_of (ownEntries moduleUris) c = Some [urlToString env u] \<and>
               map_of (searchParams u) ''chunk'' = Some c \<and>
               map_of (searchParams u) ''parentRequest'' = Some requestId)"
       "\<forall>c. c \<notin> fst ` set modules \<or> c = ''__proto__'' \<longrightarrow> map_of (ownEntries moduleUris) c = None"
    by (rule options_of_run)
  from cr have cr': "compilerRuns s' = compilerRuns s @ [(False, flagOptions fname)]"
    by (simp add: ensureEntry_keeps)
  from ff have ff': "flagfiles s' = flagfiles s @ [(fname, options)]"
    by (simp add: ensureEntry_keeps)
  show thesis
    by (rule that[OF o(1) o(2) o(4)[unfolded o(3)] o(5) o(6)[unfolded o(3)] cr' ff' st jp
          se[unfolded o(3)] r[unfolded o(7) o(3)] o(8) o(9) o(10)[unfolded o(3)] o(11) o(12)])
qed

lemma replyKey_parentRequest: "replyKey (query\<lparr>q_parentRequest := p\<rparr>) root = replyKey query root"
  by (simp add: replyKey_def)

lemma compileAndCache_parentRequest:
  "compileAndCache env config baseUrl entryConfig url requestId (query\<lparr>q_parentRequest := p\<rparr>) s =
   compileAndCache env config baseUrl entryConfig url requestId query s"
  unfolding compileAndCache_def replyKey_parentRequest ..

lemma artifactOf_session:
  "sessionOf s e q = Some session \<Longrightarrow> artifactOf s e q c = Map_get (ownProps session) c"
  by (simp add: artifactOf_def)

subsection \<open>Requests with a chunk id and a parentRequest\<close>

text \<open>
  Claim C1, as the code has it. Let the request carry a non-empty chunk id and a non-empty
  parentRequest. If the cache holds a session under parentRequest with an artifact for the
  chunk, the handler returns that artifact's source and changes nothing: the compiler is
  not run. If the cache holds no session under parentRequest, there is no
  \<open>StaleSessionError\<close>: the handler does what it does for the same request without
  parentRequest, the compile path, with the same result and the same state. That path can
  fail (the compiler may report an error, a collaborator may throw). Whenever it replies, it
  has run the compiler once on the whole chunk set and stored the session of the sorted
  chunk ids and the outputs under its own request id, and it has sent the source of the
  output at the position of the requested chunk in the sorted ids; for a chunk id at no
  position with an output (such as \<^verbatim>\<open>toString\<close>) it has sent \<^verbatim>\<open>undefined\<close>.
\<close>

theorem chunk_request_hit_or_recompile:
  assumes "truthy (q_chunk query)" and "truthy (q_parentRequest query)"
  shows "(\<forall>session out.
            sessionOf s (ec_id entryConfig) (the (q_parentRequest query)) = Some session \<and>
            Map_get (ownProps session) (the (q_chunk query)) = Some (Some out) \<longrightarrow>
            replyChunksCompile env config baseUrl entryConfig url requestId query s =
              (Inr (Returned (Some (src out))), s)) \<and>
         (sessionOf s (ec_id entryConfig) (the (q_parentRequest query)) = None \<longrightarrow>
            replyChunksCompile env config baseUrl entryConfig url requestId query s =
              replyChunksCompile env config baseUrl entryConfig url requestId
                (query\<lparr>q_parentRequest := None\<rparr>) s \<and>
            (\<forall>reply s'.
               replyChunksCompile env config baseUrl entryConfig url requestId query s = (Inr reply, s') \<longrightarrow>
               (\<exists>modules dag sortedChunkIds fname chunkOutputs.
                  ec_modules entryConfig = Some modules \<and> createDag modules = Inr dag \<and>
                  sortedChunkIds = getSortedIds dag \<and>
                  compilerRuns s' = compilerRuns s @ [(False, flagOptions fname)] \<and>
                  jsonParse env (stdout (run env False (flagOptions fname) (flagfiles s'))) =
                    Inr chunkOutputs \<and>
                  sessionOf s' (ec_id entryConfig) requestId =
                    Some (chunkIdToOutputOf sortedChunkIds chunkOutputs) \<and>
                  (\<forall>i. i < length sortedChunkIds \<and> i < length chunkOutputs \<and>
                        sortedChunkIds ! i = the (q_chunk query) \<longrightarrow>
                        reply = Sent (Some (src (chunkOutputs ! i)))) \<and>
                  ((\<forall>i. i < length sortedChunkIds \<and> i < length chunkOutputs \<longrightarrow>
                         sortedChunkIds ! i \<noteq> the (q_chunk query)) \<longrightarrow>
                     reply = Sent None))))"
proof (intro conjI allI impI)
  fix session out
  assume a: "sessionOf s (ec_id entryConfig) (the (q_parentRequest query)) = Some session \<and>
             Map_get (ownProps session) (the (q_chunk query)) = Some (Some out)"
  then have "getProp session (the (q_chunk query)) = Output out" by (simp add: getProp_def)
  with replyChunksCompile_hit[OF assms, of s entryConfig session env config baseUrl url requestId] a
  show "replyChunksCompile env config baseUrl entryConfig url requestId query s =
              (Inr (Returned (Some (src out))), s)"
    by (simp add: valueTruthy_def srcOf_def)
next
  assume n: "sessionOf s (ec_id entryConfig) (the (q_parentRequest query)) = None"
  then have m: "replyChunksCompile env config baseUrl entryConfig url requestId query s =
              compileAndCache env config baseUrl entryConfig url requestId query
                (ensureEntry s (ec_id entryConfig))"
    by (intro replyChunksCompile_miss) simp
  have "replyChunksCompile env config baseUrl entryConfig url requestId
          (query\<lparr>q_parentRequest := None\<rparr>) s =
        compileAndCache env config baseUrl entryConfig url requestId (query\<lparr>q_parentRequest := None\<rparr>)
          (ensureEntry s (ec_id entryConfig))"
    by (intro replyChunksCompile_miss) (simp add: truthy_def)
  with m show "replyChunksCompile env config baseUrl entryConfig url requestId query s =
              replyChunksCompile env config baseUrl entryConfig url requestId
                (query\<lparr>q_parentRequest := None\<rparr>) s"
    by (simp add: compileAndCache_parentRequest)
  fix reply s'
  assume r: "replyChunksCompile env config baseUrl entryConfig url requestId query s = (Inr reply, s')"
  with m have run: "compileAndCache env config baseUrl entryConfig url requestId query
                (ensureEntry s (ec_id entryConfig)) = (Inr reply, s')" by simp
  from run obtain modules dependencies dag chunkToInputPathSet options fname chunkOutputs
      moduleInfo moduleUris level where
    f: "ec_modules entryConfig = Some modules" "createDag modules = Inr dag"
       "compilerRuns s' = compilerRuns s @ [(False, flagOptions fname)]"
       "jsonParse env (stdout (run env False (flagOptions fname) (flagfiles s'))) = Inr chunkOutputs"
       "sessionOf s' (ec_id entryConfig) requestId =
          Some (chunkIdToOutputOf (getSortedIds dag) chunkOutputs)"
       "Inr reply = (case srcOf (getProp (chunkIdToOutputOf (getSortedIds dag) chunkOutputs)
                   (replyKey query (case getSortedIds dag of [] \<Rightarrow> None | c # cs \<Rightarrow> Some c))) of
            Inl e \<Rightarrow> Inl e | Inr payload \<Rightarrow> Inr (Sent payload))"
    by (rule compile_path_run) blast+
  from assms(1) have k: "replyKey query (case getSortedIds dag of [] \<Rightarrow> None | c # cs \<Rightarrow> Some c) =
      the (q_chunk query)"
    by (simp add: replyKey_def)
  from f(6) obtain payload where p: "reply = Sent payload"
    "srcOf (getProp (chunkIdToOutputOf (getSortedIds dag) chunkOutputs) (the (q_chunk query))) =
       Inr payload"
    unfolding k by (auto split: sum.splits)
  note q = payload_of_session[OF getSortedIds_distinct p(2)]
  show "\<exists>modules dag sortedChunkIds fname chunkOutputs.
                  ec_modules entryConfig = Some modules \<and> createDag modules = Inr dag \<and>
                  sortedChunkIds = getSortedIds dag \<and>
                  compilerRuns s' = compilerRuns s @ [(False, flagOptions fname)] \<and>
                  jsonParse env (stdout (run env False (flagOptions fname) (flagfiles s'))) =
                    Inr chunkOutputs \<and>
                  sessionOf s' (ec_id entryConfig) requestId =
                    Some (chunkIdToOutputOf sortedChunkIds chunkOutputs) \<and>
                  (\<forall>i. i < length sortedChunkIds \<and> i < length chunkOutputs \<and>
                        sortedChunkIds ! i = the (q_chunk query) \<longrightarrow>
                        reply = Sent (Some (src (chunkOutputs ! i)))) \<and>
                  ((\<forall>i. i < length sortedChunkIds \<and> i < length chunkOutputs \<longrightarrow>
                         sortedChunkIds ! i \<noteq> the (q_chunk query)) \<longrightarrow>
                     reply = Sent None)"
    apply (rule exI[of _ modules], rule exI[of _ dag], rule exI[of _ "getSortedIds dag"])
    apply (rule exI[of _ fname], rule exI[of _ chunkOutputs])
    using f(1-5) q unfolding p(1) by (intro conjI) simp_all
qed

text \<open>
  A live session that has no value for the chunk id: the handler throws, runs no compiler
  and changes nothing. The chunk id has no value when the session has an own property of
  that name that is \<^verbatim>\<open>undefined\<close>, or has no such own property, the prototype of the session
  is \<^verbatim>\<open>Object.prototype\<close>, and the name is no member of it.
\<close>

lemma unexpected_chunk_throws:
  assumes "truthy (q_chunk query)" and "truthy (q_parentRequest query)"
    and "sessionOf s (ec_id entryConfig) (the (q_parentRequest query)) = Some session"
    and "Map_get (ownProps session) (the (q_chunk query)) = Some None \<or>
         (Map_get (ownProps session) (the (q_chunk query)) = None \<and> protoOf session = None \<and>
          the (q_chunk query) \<notin> set objectPrototypeKeys)"
  shows "replyChunksCompile env config baseUrl entryConfig url requestId query s =
           (Inl (JsError (''Unexpected requested chunk: '' @ the (q_chunk query))), s)"
proof -
  from assms(4) have "getProp session (the (q_chunk query)) = Undefined"
    by (auto simp: getProp_def)
  with replyChunksCompile_hit[OF assms(1,2,3), of env config baseUrl url requestId]
  show ?thesis by (simp add: valueTruthy_def)
qed

lemma exCached_R1: "sessionOf exStateCached (ec_id exEntryConfig) ''R1'' = Some exSession"
  by (simp add: sessionOf_def exStateCached_def exEntryConfig_def)

text \<open>
  Claim C10 at the chunk id \<^verbatim>\<open>toString\<close>. The session under \<^verbatim>\<open>R1\<close> has no artifact for it, but
  \<^verbatim>\<open>parentChunkCache['toString']\<close> is the function inherited from \<^verbatim>\<open>Object.prototype\<close>, which is
  truthy: the handler does not throw, and returns the \<^verbatim>\<open>src\<close> of that function, which is
  undefined. For a chunk id that is no member of \<^verbatim>\<open>Object.prototype\<close> the handler throws, as
  \<open>unexpected_chunk_throws\<close> shows.
\<close>

theorem inherited_chunk_id_returns_undefined:
  "artifactOf exStateCached ''main'' ''R1'' ''toString'' = None \<and>
   replyChunksCompile exEnv exConfig exBaseUrl exEntryConfig exUrl ''R2''
     (exQuery (Some ''toString'') (Some ''R1'')) exStateCached =
   (Inr (Returned None), exStateCached)"
proof -
  have a: "artifactOf exStateCached ''main'' ''R1'' ''toString'' = None"
    by (simp add: artifactOf_def sessionOf_def exStateCached_def exSession_def Map_get_def)
  have t: "truthy (q_chunk (exQuery (Some ''toString'') (Some ''R1'')))"
          "truthy (q_parentRequest (exQuery (Some ''toString'') (Some ''R1'')))"
    by (simp_all add: truthy_def exQuery_def)
  have s: "sessionOf exStateCached (ec_id exEntryConfig)
             (the (q_parentRequest (exQuery (Some ''toString'') (Some ''R1'')))) = Some exSession"
    using exCached_R1 by (simp add: exQuery_def)
  have g: "getProp exSession (the (q_chunk (exQuery (Some ''toString'') (Some ''R1'')))) = Builtin"
    by (simp add: getProp_def exSession_def exQuery_def objectPrototypeKeys_def Map_get_def)
  from replyChunksCompile_hit[OF t s, of exEnv exConfig exBaseUrl exUrl "''R2''"] g a
  show ?thesis by (simp add: valueTruthy_def srcOf_def)
qed

subsection \<open>Requests without a parentRequest\<close>




subsection \<open>Writes to the chunk cache\<close>

text \<open>
  Claim C8, as the code has it, for one run of the handler with no other handler in between.
  The run leaves every session but the one under its entry id and request id as it was.
  When the run sent a reply from the compile path, or left another session under its request
  id than it found, then the compiler was run once in this run and resolved, its output was
  parsed, and the session now stored under the request id is the one built, completely
  before it is stored, from the sorted ids of the declared chunks and the outputs of this
  run. Nothing is assumed of the cache before the run: the write is a plain \<^verbatim>\<open>Map.set\<close>, and a
  session already stored under the request id is replaced. The own keys of the stored
  session are the sorted chunk ids but \<^verbatim>\<open>__proto__\<close>; each maps to the output at its position,
  which is undefined when the compiler returned fewer outputs than there are chunks; and
  reading the session at the id of a position that has an output gives that output.
\<close>

theorem cache_write_after_compile:
  assumes "replyChunksCompile env config baseUrl entryConfig url requestId query s = (r, s')"
  shows "(\<forall>e q. (e, q) \<noteq> (ec_id entryConfig, requestId) \<longrightarrow> sessionOf s' e q = sessionOf s e q) \<and>
         ((\<exists>payload. r = Inr (Sent payload)) \<or>
          sessionOf s' (ec_id entryConfig) requestId \<noteq> sessionOf s (ec_id entryConfig) requestId \<longrightarrow>
            (\<exists>modules dag sortedChunkIds fname chunkOutputs.
               ec_modules entryConfig = Some modules \<and> createDag modules = Inr dag \<and>
               sortedChunkIds = getSortedIds dag \<and>
               compilerRuns s' = compilerRuns s @ [(False, flagOptions fname)] \<and>
               \<not> truthy (stderr (run env False (flagOptions fname) (flagfiles s'))) \<and>
               jsonParse env (stdout (run env False (flagOptions fname) (flagfiles s'))) = Inr chunkOutputs \<and>
               sessionOf s' (ec_id entryConfig) requestId =
                 Some (chunkIdToOutputOf sortedChunkIds chunkOutputs) \<and>
               {c. artifactOf s' (ec_id entryConfig) requestId c \<noteq> None} =
                 set sortedChunkIds - {''__proto__''} \<and>
               (\<forall>i<length sortedChunkIds. sortedChunkIds ! i \<noteq> ''__proto__'' \<longrightarrow>
                  artifactOf s' (ec_id entryConfig) requestId (sortedChunkIds ! i) =
                    Some (nthOpt chunkOutputs i)) \<and>
               (\<forall>i<length sortedChunkIds. i < length chunkOutputs \<longrightarrow>
                  getProp (chunkIdToOutputOf sortedChunkIds chunkOutputs) (sortedChunkIds ! i) =
                    Output (chunkOutputs ! i))))"
proof (cases "truthy (q_chunk query) \<and> truthy (q_parentRequest query) \<and>
              sessionOf s (ec_id entryConfig) (the (q_parentRequest query)) \<noteq> None")
  case True
  then obtain session where
    "sessionOf s (ec_id entryConfig) (the (q_parentRequest query)) = Some session" by blast
  from replyChunksCompile_hit[OF _ _ this, of env config baseUrl url requestId] True assms
  have "s' = s \<and> (\<forall>payload. r \<noteq> Inr (Sent payload))"
    by (auto split: if_splits sum.splits)
  then show ?thesis by simp
next
  case False
  let ?s0 = "ensureEntry s (ec_id entryConfig)"
  from replyChunksCompile_miss[OF False, of env config baseUrl url requestId] assms
  have run: "compileAndCache env config baseUrl entryConfig url requestId query ?s0 = (r, s')"
    by simp
  have other: "\<forall>e q. (e, q) \<noteq> (ec_id entryConfig, requestId) \<longrightarrow> sessionOf s' e q = sessionOf s e q"
    using compileAndCache_effect(1)[OF run] by (simp add: ensureEntry_keeps)
  have changed: "\<exists>modules dag sortedChunkIds fname chunkOutputs.
               ec_modules entryConfig = Some modules \<and> createDag modules = Inr dag \<and>
               sortedChunkIds = getSortedIds dag \<and>
               compilerRuns s' = compilerRuns s @ [(False, flagOptions fname)] \<and>
               \<not> truthy (stderr (run env False (flagOptions fname) (flagfiles s'))) \<and>
               jsonParse env (stdout (run env False (flagOptions fname) (flagfiles s'))) = Inr chunkOutputs \<and>
               sessionOf s' (ec_id entryConfig) requestId =
                 Some (chunkIdToOutputOf sortedChunkIds chunkOutputs) \<and>
               {c. artifactOf s' (ec_id entryConfig) requestId c \<noteq> None} =
                 set sortedChunkIds - {''__proto__''} \<and>
               (\<forall>i<length sortedChunkIds. sortedChunkIds ! i \<noteq> ''__proto__'' \<longrightarrow>
                  artifactOf s' (ec_id entryConfig) requestId (sortedChunkIds ! i) =
                    Some (nthOpt chunkOutputs i)) \<and>
               (\<forall>i<length sortedChunkIds. i < length chunkOutputs \<longrightarrow>
                  getProp (chunkIdToOutputOf sortedChunkIds chunkOutputs) (sortedChunkIds ! i) =
                    Output (chunkOutputs ! i))"
    if ne: "(\<exists>payload. r = Inr (Sent payload)) \<or>
            sessionOf s' (ec_id entryConfig) requestId \<noteq> sessionOf s (ec_id entryConfig) requestId"
  proof -
    from ne have ne': "(\<exists>reply. r = Inr reply) \<or>
        sessionOf s' (ec_id entryConfig) requestId \<noteq> sessionOf s (ec_id entryConfig) requestId"
      by blast
    from run ne' obtain modules dependencies dag pl options fname outs moduleInfo moduleUris level where
      f: "ec_modules entryConfig = Some modules"
         "createDag modules = Inr dag"
         "compilerRuns s' = compilerRuns s @ [(False, flagOptions fname)]"
         "\<not> truthy (stderr (run env False (flagOptions fname) (flagfiles s')))"
         "jsonParse env (stdout (run env False (flagOptions fname) (flagfiles s'))) = Inr outs"
         "sessionOf s' (ec_id entryConfig) requestId = Some (chunkIdToOutputOf (getSortedIds dag) outs)"
      by (rule compile_path_run)
    let ?ids = "getSortedIds dag"
    note d = getSortedIds_distinct[of dag]
    have keys: "{c. artifactOf s' (ec_id entryConfig) requestId c \<noteq> None} = set ?ids - {''__proto__''}"
      using chunkIdToOutputOf_own_keys[OF d, of outs] by (simp add: artifactOf_session[OF f(6)])
    have art: "\<forall>i<length ?ids. ?ids ! i \<noteq> ''__proto__'' \<longrightarrow>
        artifactOf s' (ec_id entryConfig) requestId (?ids ! i) = Some (nthOpt outs i)"
      using d by (simp add: artifactOf_session[OF f(6)] chunkIdToOutputOf_own_nth)
    have rd: "\<forall>i<length ?ids. i < length outs \<longrightarrow>
        getProp (chunkIdToOutputOf ?ids outs) (?ids ! i) = Output (outs ! i)"
      using d by (simp add: getProp_session_nth)
    show ?thesis
      apply (rule exI[of _ modules], rule exI[of _ dag], rule exI[of _ ?ids])
      apply (rule exI[of _ fname], rule exI[of _ outs])
      using f(1) f(2) refl[of ?ids] f(3) f(4) f(5) f(6) keys art rd
      by (intro conjI) assumption+
  qed
  from other changed show ?thesis by blast
qed

section \<open>The theorems on the concrete server\<close>


text \<open>A cached entry id is served from the caches though its paths have changed.\<close>

theorem dependency_caches_hit_witness:
  "ec_id exEntryConfigMoved = ''main'' \<and>
   ec_paths exEntryConfigMoved \<noteq> ec_paths exEntryConfig \<and>
   dependenciesCache exState ''main'' = Some [exX, exAppJs, exAJs, exBJs] \<and>
   depFileTextCache exState ''main'' = Some ''goog.addDependency(x.js)'' \<and>
   getDependencies exEnv exEntryConfigMoved (Some (Str ''/other'')) exState =
     (Inr [exX, exAppJs, exAJs, exBJs], exState) \<and>
   generateDepFileText exEnv exEntryConfigMoved ''/other'' ''/moved'' exState =
     (Inr ''goog.addDependency(x.js)'', exState)"
proof -
  have i: "ec_id exEntryConfigMoved = ''main''"
    by (simp add: exEntryConfigMoved_def exEntryConfig_def)
  have p: "ec_paths exEntryConfigMoved \<noteq> ec_paths exEntryConfig"
    by (simp add: exEntryConfigMoved_def exEntryConfig_def)
  have d: "dependenciesCache exState ''main'' = Some [exX, exAppJs, exAJs, exBJs]"
    by (simp add: exState_def)
  have t: "depFileTextCache exState ''main'' = Some ''goog.addDependency(x.js)''"
    by (simp add: exState_def)
  note h = dependency_caches_hit[OF i, of exState "[exX, exAppJs, exAJs, exBJs]" exEnv
      "Some (Str ''/other'')" "''goog.addDependency(x.js)''" "''/other''" "''/moved''"]
  note g = h[THEN conjunct1, THEN mp, OF d]
  note f = h[THEN conjunct2, THEN mp, OF t]
  show ?thesis by (rule conjI[OF i conjI[OF p conjI[OF d conjI[OF t conjI[OF g f]]]]])
qed

text \<open>
  The chunk \<^verbatim>\<open>a\<close> of the session \<^verbatim>\<open>R1\<close> is served from the cache. The same chunk under a
  parentRequest that names no session is compiled anew, as without the parentRequest.
\<close>

theorem chunk_request_hit_or_recompile_witness:
  "truthy (q_chunk (exQuery (Some ''a'') (Some ''R1''))) \<and>
   truthy (q_parentRequest (exQuery (Some ''a'') (Some ''R1''))) \<and>
   sessionOf exStateCached (ec_id exEntryConfig)
     (the (q_parentRequest (exQuery (Some ''a'') (Some ''R1'')))) = Some exSession \<and>
   Map_get (ownProps exSession) (the (q_chunk (exQuery (Some ''a'') (Some ''R1'')))) =
     Some (Some exOutA) \<and>
   replyChunksCompile exEnv exConfig exBaseUrl exEntryConfig exUrl ''R2''
     (exQuery (Some ''a'') (Some ''R1'')) exStateCached =
   (Inr (Returned (Some (src exOutA))), exStateCached) \<and>
   sessionOf exStateCached (ec_id exEntryConfig)
     (the (q_parentRequest (exQuery (Some ''a'') (Some ''stale'')))) = None \<and>
   replyChunksCompile exEnv exConfig exBaseUrl exEntryConfig exUrl ''R2''
     (exQuery (Some ''a'') (Some ''stale'')) exStateCached =
   replyChunksCompile exEnv exConfig exBaseUrl exEntryConfig exUrl ''R2''
     ((exQuery (Some ''a'') (Some ''stale''))\<lparr>q_parentRequest := None\<rparr>) exStateCached \<and>
   (\<exists>modules dag sortedChunkIds fname chunkOutputs.
      ec_modules exEntryConfig = Some modules \<and> createDag modules = Inr dag \<and>
      sortedChunkIds = getSortedIds dag \<and>
      compilerRuns (snd (replyChunksCompile exEnv exConfig exBaseUrl exEntryConfig exUrl ''R2''
          (exQuery (Some ''a'') (Some ''stale'')) exStateCached)) =
        compilerRuns exStateCached @ [(False, flagOptions fname)] \<and>
      jsonParse exEnv (stdout (run exEnv False (flagOptions fname)
          (flagfiles (snd (replyChunksCompile exEnv exConfig exBaseUrl exEntryConfig exUrl ''R2''
             (exQuery (Some ''a'') (Some ''stale'')) exStateCached))))) = Inr chunkOutputs \<and>
      sessionOf (snd (replyChunksCompile exEnv exConfig exBaseUrl exEntryConfig exUrl ''R2''
          (exQuery (Some ''a'') (Some ''stale'')) exStateCached)) (ec_id exEntryConfig) ''R2'' =
        Some (chunkIdToOutputOf sortedChunkIds chunkOutputs) \<and>
      (\<forall>i. i < length sortedChunkIds \<and> i < length chunkOutputs \<and>
            sortedChunkIds ! i = the (q_chunk (exQuery (Some ''a'') (Some ''stale''))) \<longrightarrow>
            Sent (Some ''A'') = Sent (Some (src (chunkOutputs ! i)))) \<and>
      ((\<forall>i. i < length sortedChunkIds \<and> i < length chunkOutputs \<longrightarrow>
             sortedChunkIds ! i \<noteq> the (q_chunk (exQuery (Some ''a'') (Some ''stale'')))) \<longrightarrow>
         Sent (Some ''A'') = Sent None))"
proof -
  let ?X = "replyChunksCompile exEnv exConfig exBaseUrl exEntryConfig exUrl ''R2''
     (exQuery (Some ''a'') (Some ''stale'')) exStateCached"
  have t1: "truthy (q_chunk (exQuery (Some ''a'') (Some ''R1'')))"
    by (simp add: truthy_def exQuery_def)
  have t2: "truthy (q_parentRequest (exQuery (Some ''a'') (Some ''R1'')))"
    by (simp add: truthy_def exQuery_def)
  have s: "sessionOf exStateCached (ec_id exEntryConfig)
             (the (q_parentRequest (exQuery (Some ''a'') (Some ''R1'')))) = Some exSession"
    using exCached_R1 by (simp add: exQuery_def)
  have a: "Map_get (ownProps exSession) (the (q_chunk (exQuery (Some ''a'') (Some ''R1'')))) =
      Some (Some exOutA)"
    by (simp add: exSession_def exQuery_def Map_get_def)
  note h = chunk_request_hit_or_recompile[OF t1 t2, of exStateCached exEntryConfig exEnv exConfig
      exBaseUrl exUrl "''R2''", THEN conjunct1, THEN spec, THEN spec, THEN mp, OF conjI[OF s a]]
  have u1: "truthy (q_chunk (exQuery (Some ''a'') (Some ''stale'')))"
    by (simp add: truthy_def exQuery_def)
  have u2: "truthy (q_parentRequest (exQuery (Some ''a'') (Some ''stale'')))"
    by (simp add: truthy_def exQuery_def)
  have n: "sessionOf exStateCached (ec_id exEntryConfig)
     (the (q_parentRequest (exQuery (Some ''a'') (Some ''stale'')))) = None"
    by (simp add: sessionOf_def exStateCached_def exEntryConfig_def exQuery_def)
  note m = chunk_request_hit_or_recompile[OF u1 u2, of exStateCached exEntryConfig exEnv exConfig
      exBaseUrl exUrl "''R2''", THEN conjunct2, THEN mp, OF n]
  have r: "fst ?X = Inr (Sent (Some ''A''))" by code_simp
  have x: "?X = (Inr (Sent (Some ''A'')), snd ?X)"
    by (rule prod_eqI) (simp_all only: fst_conv snd_conv r)
  note e = m[THEN conjunct2, THEN spec, THEN spec, THEN mp, OF x]
  show ?thesis
    by (rule conjI[OF t1 conjI[OF t2 conjI[OF s conjI[OF a conjI[OF h conjI[OF n
          conjI[OF m[THEN conjunct1] e]]]]]]])
qed

text \<open>A request for the chunk \<^verbatim>\<open>a\<close> under a parentRequest that names no session is
  answered by a new compilation.\<close>

theorem stale_parent_request_recompiles_counterexample:
  "truthy (q_chunk (exQuery (Some ''a'') (Some ''stale''))) \<and>
   truthy (q_parentRequest (exQuery (Some ''a'') (Some ''stale''))) \<and>
   sessionOf exStateCached ''main'' ''stale'' = None \<and>
   fst (replyChunksCompile exEnv exConfig exBaseUrl exEntryConfig exUrl ''R2''
          (exQuery (Some ''a'') (Some ''stale'')) exStateCached) = Inr (Sent (Some ''A'')) \<and>
   length (compilerRuns (snd (replyChunksCompile exEnv exConfig exBaseUrl exEntryConfig exUrl ''R2''
          (exQuery (Some ''a'') (Some ''stale'')) exStateCached))) =
     Suc (length (compilerRuns exStateCached))"
proof -
  have t1: "truthy (q_chunk (exQuery (Some ''a'') (Some ''stale'')))"
    by (simp add: truthy_def exQuery_def)
  have t2: "truthy (q_parentRequest (exQuery (Some ''a'') (Some ''stale'')))"
    by (simp add: truthy_def exQuery_def)
  have n: "sessionOf exStateCached ''main'' ''stale'' = None"
    by (simp add: sessionOf_def exStateCached_def)
  have r: "fst (replyChunksCompile exEnv exConfig exBaseUrl exEntryConfig exUrl ''R2''
          (exQuery (Some ''a'') (Some ''stale'')) exStateCached) = Inr (Sent (Some ''A''))"
    by code_simp
  have c0: "compilerRuns (snd (replyChunksCompile exEnv exConfig exBaseUrl exEntryConfig exUrl ''R2''
          (exQuery (Some ''a'') (Some ''stale'')) exStateCached)) =
      [(False, flagOptions ''closure.conf.0'')]"
    by code_simp
  have "compilerRuns exStateCached = []" by (simp add: exStateCached_def exState_def)
  with c0 have c: "length (compilerRuns (snd (replyChunksCompile exEnv exConfig exBaseUrl exEntryConfig exUrl ''R2''
          (exQuery (Some ''a'') (Some ''stale'')) exStateCached))) =
     Suc (length (compilerRuns exStateCached))"
    by simp
  show ?thesis by (rule conjI[OF t1 conjI[OF t2 conjI[OF n conjI[OF r c]]]])
qed



text \<open>A first request with the id \<^verbatim>\<open>R2\<close> stores its session and leaves \<^verbatim>\<open>R1\<close> alone.\<close>

theorem cache_write_after_compile_witness:
  "sessionOf exStateCached (ec_id exEntryConfig) ''R2'' = None \<and>
   artifactOf (snd (replyChunksCompile exEnv exConfig exBaseUrl exEntryConfig exUrl ''R2''
      (exQuery None None) exStateCached)) (ec_id exEntryConfig) ''R2'' ''app'' = Some (Some exOutApp) \<and>
   sessionOf (snd (replyChunksCompile exEnv exConfig exBaseUrl exEntryConfig exUrl ''R2''
      (exQuery None None) exStateCached)) (ec_id exEntryConfig) ''R1'' =
     sessionOf exStateCached (ec_id exEntryConfig) ''R1'' \<and>
   (\<exists>modules dag sortedChunkIds fname chunkOutputs.
               ec_modules exEntryConfig = Some modules \<and> createDag modules = Inr dag \<and>
               sortedChunkIds = getSortedIds dag \<and>
               compilerRuns (snd (replyChunksCompile exEnv exConfig exBaseUrl exEntryConfig exUrl ''R2''
      (exQuery None None) exStateCached)) = compilerRuns exStateCached @ [(False, flagOptions fname)] \<and>
               \<not> truthy (stderr (run exEnv False (flagOptions fname) (flagfiles (snd (replyChunksCompile exEnv exConfig exBaseUrl exEntryConfig exUrl ''R2''
      (exQuery None None) exStateCached))))) \<and>
               jsonParse exEnv (stdout (run exEnv False (flagOptions fname) (flagfiles (snd (replyChunksCompile exEnv exConfig exBaseUrl exEntryConfig exUrl ''R2''
      (exQuery None None) exStateCached))))) = Inr chunkOutputs \<and>
               sessionOf (snd (replyChunksCompile exEnv exConfig exBaseUrl exEntryConfig exUrl ''R2''
      (exQuery None None) exStateCached)) (ec_id exEntryConfig) ''R2'' =
                 Some (chunkIdToOutputOf sortedChunkIds chunkOutputs) \<and>
               {c. artifactOf (snd (replyChunksCompile exEnv exConfig exBaseUrl exEntryConfig exUrl ''R2''
      (exQuery None None) exStateCached)) (ec_id exEntryConfig) ''R2'' c \<noteq> None} =
                 set sortedChunkIds - {''__proto__''} \<and>
               (\<forall>i<length sortedChunkIds. sortedChunkIds ! i \<noteq> ''__proto__'' \<longrightarrow>
                  artifactOf (snd (replyChunksCompile exEnv exConfig exBaseUrl exEntryConfig exUrl ''R2''
      (exQuery None None) exStateCached)) (ec_id exEntryConfig) ''R2'' (sortedChunkIds ! i) =
                    Some (nthOpt chunkOutputs i)) \<and>
               (\<forall>i<length sortedChunkIds. i < length chunkOutputs \<longrightarrow>
                  getProp (chunkIdToOutputOf sortedChunkIds chunkOutputs) (sortedChunkIds ! i) =
                    Output (chunkOutputs ! i)))"
proof -
  let ?X = "replyChunksCompile exEnv exConfig exBaseUrl exEntryConfig exUrl ''R2''
      (exQuery None None) exStateCached"
  have n: "sessionOf exStateCached (ec_id exEntryConfig) ''R2'' = None"
    by (simp add: sessionOf_def exStateCached_def exEntryConfig_def)
  have a: "artifactOf (snd ?X) (ec_id exEntryConfig) ''R2'' ''app'' = Some (Some exOutApp)"
    by code_simp
  have h: "?X = (fst ?X, snd ?X)" by (rule prod.collapse[symmetric])
  note t = cache_write_after_compile[OF h]
  have d: "(ec_id exEntryConfig, ''R1'') \<noteq> (ec_id exEntryConfig, ''R2'')" by simp
  note o = t[THEN conjunct1, THEN spec, THEN spec, THEN mp, OF d]
  have ne: "sessionOf (snd ?X) (ec_id exEntryConfig) ''R2'' \<noteq>
            sessionOf exStateCached (ec_id exEntryConfig) ''R2''"
    using a n by (auto simp: artifactOf_def split: option.splits)
  note c = t[THEN conjunct2, THEN mp, OF disjI2[OF ne]]
  show ?thesis by (rule conjI[OF n conjI[OF a conjI[OF o c]]])
qed

text \<open>A first request with the id \<^verbatim>\<open>R0\<close> replaces the session stored under \<^verbatim>\<open>R0\<close>.\<close>

theorem cache_write_after_compile_counterexample:
  "artifactOf exStateCached ''main'' ''R0'' ''app'' = Some (Some (exOutApp\<lparr>src := ''OLD''\<rparr>)) \<and>
   artifactOf (snd (replyChunksCompile exEnv exConfig exBaseUrl exEntryConfig exUrl ''R0''
          (exQuery None None) exStateCached)) ''main'' ''R0'' ''app'' = Some (Some exOutApp) \<and>
   exOutApp\<lparr>src := ''OLD''\<rparr> \<noteq> exOutApp"
proof -
  have b: "artifactOf exStateCached ''main'' ''R0'' ''app'' = Some (Some (exOutApp\<lparr>src := ''OLD''\<rparr>))"
    by (simp add: artifactOf_def sessionOf_def exStateCached_def exOldSession_def Map_get_def)
  have a: "artifactOf (snd (replyChunksCompile exEnv exConfig exBaseUrl exEntryConfig exUrl ''R0''
          (exQuery None None) exStateCached)) ''main'' ''R0'' ''app'' = Some (Some exOutApp)"
    by code_simp
  have n: "exOutApp\<lparr>src := ''OLD''\<rparr> \<noteq> exOutApp" by (simp add: exOutApp_def)
  show ?thesis by (rule conjI[OF b conjI[OF a n]])
qed

subsection \<open>A chunk named \<^verbatim>\<open>__proto__\<close>\<close>

text \<open>
  The session of the chunks \<^verbatim>\<open>app\<close> and \<^verbatim>\<open>__proto__\<close> has the one own key \<^verbatim>\<open>app\<close>; the output of
  \<^verbatim>\<open>__proto__\<close> is its prototype. Reading \<^verbatim>\<open>__proto__\<close> gives that output, reading \<^verbatim>\<open>src\<close> gives a
  string of it, and an undeclared name gives \<^verbatim>\<open>undefined\<close>.
\<close>

lemma proto_chunk_session:
  "chunkIdToOutputOf [''app'', ''__proto__''] [exOutApp, exOutA] =
     \<lparr>ownProps = [(''app'', Some exOutApp)], protoOf = Some exOutA\<rparr> \<and>
   getProp (chunkIdToOutputOf [''app'', ''__proto__''] [exOutApp, exOutA]) ''__proto__'' =
     Output exOutA \<and>
   getProp (chunkIdToOutputOf [''app'', ''__proto__''] [exOutApp, exOutA]) ''src'' =
     StringValue ''A'' \<and>
   getProp (chunkIdToOutputOf [''app'', ''__proto__''] [exOutApp, exOutA]) ''b'' = Undefined"
  by code_simp

text \<open>In the manifest of these chunks only \<^verbatim>\<open>app\<close> has an entry.\<close>

lemma proto_chunk_manifest:
  "map_sum id (\<lambda>(moduleInfo, moduleUris). (ownEntries moduleInfo, ownEntries moduleUris))
     (convertModuleInfos (exEntryConfig\<lparr>ec_modules := Some exModulesProto\<rparr>)
        (createModuleUris exEnv exBaseUrl exUrl ''R1'')) =
   Inr ([(''app'', [])],
        [(''app'', [''http://localhost:9810/compile?id=main&chunk=app&parentRequest=R1''])])"
  by code_simp
end
